theory Spec2Isabelle
  imports Complex_Main
begin

chapter \<open>AutoMCM: the orchestration core\<close>

text \<open>
  A shallow embedding of the provider factory (\<^verbatim>\<open>core/llm-providers.js\<close>), the base agent
  (\<^verbatim>\<open>agents/base-agent.js\<close>), the artifact store (\<^verbatim>\<open>core/artifact-store.js\<close>), the master
  agent (\<^verbatim>\<open>agents/master-agent.js\<close>) and the agent service
  (\<^verbatim>\<open>AgentService\<close>, the retrying facade of the frontend).

  Conventions of the embedding.
  \<^item> A JavaScript string is a \<^typ>\<open>string\<close>: a list of 8-bit code units (the Latin-1 range
    of the UTF-16 code units of the source).
  \<^item> A thrown exception is the \<open>Inl\<close> of a result \<open>error + 'a\<close>; an \<^verbatim>\<open>async\<close> function
    that rejects is a function that throws.
  \<^item> Mutation of \<^verbatim>\<open>this\<close> is state passing: a method takes the object and returns the
    updated object beside its result.
  \<^item> What the environment decides (the answer of a remote model, the clock, a random
    number, a child process) is an argument of the function that asks for it.
  \<^item> \<^verbatim>\<open>console.log\<close>, \<^verbatim>\<open>console.warn\<close> and \<^verbatim>\<open>console.error\<close> lines are not modelled.
    When the agent service intercepts the console (\<^verbatim>\<open>_interceptLogs\<close>) each of them becomes
    one more event of kind \<^verbatim>\<open>'log'\<close>, never an event of another kind.
\<close>

section \<open>JavaScript values\<close>

datatype jsval = JUndefined | JNull | JBool bool | JNum rat | JStr string

text \<open>Truthiness, for the values a configuration file or a caller provides.\<close>

fun truthy :: "jsval \<Rightarrow> bool" where
  "truthy JUndefined = False"
| "truthy JNull = False"
| "truthy (JBool b) = b"
| "truthy (JNum n) = (n \<noteq> 0)"
| "truthy (JStr s) = (s \<noteq> [])"

text \<open>\<^verbatim>\<open>a || b\<close>\<close>

definition jsOr :: "jsval \<Rightarrow> jsval \<Rightarrow> jsval" where
  "jsOr a b = (if truthy a then a else b)"

text \<open>
  \<^verbatim>\<open>new Error(message)\<close>, and the \<^verbatim>\<open>TypeError\<close> the engine raises when a property is read
  from \<^verbatim>\<open>undefined\<close> or \<^verbatim>\<open>null\<close> or a method is called on a value that does not have it,
  with its message in the wording of V8. \<open>errorMessage\<close> is \<^verbatim>\<open>error.message\<close>.
\<close>

datatype error = Error string | TypeError string

fun errorMessage :: "error \<Rightarrow> string" where
  "errorMessage (Error msg) = msg"
| "errorMessage (TypeError msg) = msg"

text \<open>
  \<^verbatim>\<open>String.prototype.toLowerCase\<close> on 8-bit code units: \<open>A\<close> to \<open>Z\<close> and the Latin-1 capitals
  (\<open>0xC0\<close> to \<open>0xDE\<close> but the multiplication sign \<open>0xD7\<close>) move up by 32, which sets bit 5.
\<close>

fun toLowerChar :: "char \<Rightarrow> char" where
  "toLowerChar (Char b0 b1 b2 b3 b4 b5 b6 b7) =
     (let n = (of_char (Char b0 b1 b2 b3 b4 b5 b6 b7) :: nat)
      in if (65 \<le> n \<and> n \<le> 90) \<or> (192 \<le> n \<and> n \<le> 222 \<and> n \<noteq> 215)
         then Char b0 b1 b2 b3 b4 True b6 b7
         else Char b0 b1 b2 b3 b4 b5 b6 b7)"

definition toLowerCase :: "string \<Rightarrow> string" where
  "toLowerCase s = map toLowerChar s"

section \<open>ProviderFactory\<close>

text \<open>The object \<^verbatim>\<open>createProvider\<close> destructures.\<close>

record providerConfig =
  pc_provider :: jsval
  pc_apiKey :: jsval
  pc_baseUrl :: jsval
  pc_model :: jsval
  pc_maxTokens :: jsval
  pc_temperature :: jsval

text \<open>The \<^verbatim>\<open>config\<close> object a provider instance keeps.\<close>

record clientConfig =
  cc_apiKey :: jsval
  cc_baseUrl :: jsval
  cc_model :: jsval
  cc_maxTokens :: jsval
  cc_temperature :: jsval

datatype providerClass = ClaudeProvider | OpenAIProvider | GeminiProvider

record provider =
  p_class :: providerClass
  p_config :: clientConfig

fun defaultBaseUrl :: "providerClass \<Rightarrow> string" where
  "defaultBaseUrl ClaudeProvider = ''https://api.anthropic.com''"
| "defaultBaseUrl OpenAIProvider = ''https://api.openai.com''"
| "defaultBaseUrl GeminiProvider = ''https://generativelanguage.googleapis.com''"

text \<open>
  The three constructors: \<^verbatim>\<open>super(config); this.config.baseUrl = config.baseUrl || '...'\<close>.
\<close>

definition newProvider :: "providerClass \<Rightarrow> clientConfig \<Rightarrow> provider" where
  "newProvider k c =
     \<lparr>p_class = k,
      p_config = c\<lparr>cc_baseUrl := jsOr (cc_baseUrl c) (JStr (defaultBaseUrl k))\<rparr>\<rparr>"

text \<open>
  \<^verbatim>\<open>ProviderFactory.createProvider\<close>. \<^verbatim>\<open>provider.toLowerCase()\<close> raises a \<^verbatim>\<open>TypeError\<close> when
  \<^verbatim>\<open>provider\<close> is not a string; the \<^verbatim>\<open>switch\<close> has three pairs of labels and a default
  that throws.
\<close>

definition createProvider :: "providerConfig \<Rightarrow> error + provider" where
  "createProvider providerConfig =
     (let config =
            \<lparr>cc_apiKey = pc_apiKey providerConfig,
             cc_baseUrl = pc_baseUrl providerConfig,
             cc_model = pc_model providerConfig,
             cc_maxTokens = jsOr (pc_maxTokens providerConfig) (JNum 8192),
             cc_temperature = jsOr (pc_temperature providerConfig) (JNum (7 / 10))\<rparr>
      in case pc_provider providerConfig of
           JStr provider \<Rightarrow>
             (let p = toLowerCase provider
              in if p = ''anthropic'' \<or> p = ''claude'' then Inr (newProvider ClaudeProvider config)
                 else if p = ''openai'' \<or> p = ''gpt'' then Inr (newProvider OpenAIProvider config)
                 else if p = ''google'' \<or> p = ''gemini'' then Inr (newProvider GeminiProvider config)
                 else Inl (Error (''Unsupported LLM provider: '' @ provider)))
         | JUndefined \<Rightarrow>
             Inl (TypeError ''Cannot read properties of undefined (reading 'toLowerCase')'')
         | JNull \<Rightarrow> Inl (TypeError ''Cannot read properties of null (reading 'toLowerCase')'')
         | _ \<Rightarrow> Inl (TypeError ''provider.toLowerCase is not a function''))"

section \<open>Configuration\<close>

text \<open>
  The value of \<^verbatim>\<open>config.get('llm.task_overrides.<mode>')\<close> when it is an object: the four
  keys \<^verbatim>\<open>_initializeProvider\<close> reads, and the two further keys of a provider configuration,
  which a configuration file may give and \<^verbatim>\<open>_initializeProvider\<close> never reads.
\<close>

record taskOverride =
  to_provider :: jsval
  to_api_key :: jsval
  to_base_url :: jsval
  to_model :: jsval
  to_max_tokens :: jsval
  to_temperature :: jsval

text \<open>
  The part of the configuration singleton the agents read: \<^verbatim>\<open>config.get('llm.provider')\<close>
  and so on. \<open>llm_task_overrides cfg mode = None\<close> stands for \<^verbatim>\<open>undefined\<close> (no entry for the
  mode) and for \<^verbatim>\<open>null\<close>.
\<close>

record appConfig =
  llm_provider :: jsval
  llm_api_key :: jsval
  llm_base_url :: jsval
  llm_model :: jsval
  llm_max_tokens :: jsval
  llm_temperature :: jsval
  llm_task_overrides :: "string \<Rightarrow> taskOverride option"

section \<open>BaseAgent\<close>

definition primaryConfig :: "appConfig \<Rightarrow> providerConfig" where
  "primaryConfig cfg =
     \<lparr>pc_provider = llm_provider cfg,
      pc_apiKey = llm_api_key cfg,
      pc_baseUrl = llm_base_url cfg,
      pc_model = llm_model cfg,
      pc_maxTokens = llm_max_tokens cfg,
      pc_temperature = llm_temperature cfg\<rparr>"

definition overrideConfig :: "appConfig \<Rightarrow> taskOverride \<Rightarrow> providerConfig" where
  "overrideConfig cfg taskOverride =
     \<lparr>pc_provider = jsOr (to_provider taskOverride) (pc_provider (primaryConfig cfg)),
      pc_apiKey = jsOr (to_api_key taskOverride) (pc_apiKey (primaryConfig cfg)),
      pc_baseUrl = jsOr (to_base_url taskOverride) (pc_baseUrl (primaryConfig cfg)),
      pc_model = jsOr (to_model taskOverride) (pc_model (primaryConfig cfg)),
      pc_maxTokens = pc_maxTokens (primaryConfig cfg),
      pc_temperature = pc_temperature (primaryConfig cfg)\<rparr>"

text \<open>
  The argument \<^verbatim>\<open>_initializeProvider\<close> passes to \<^verbatim>\<open>ProviderFactory.createProvider\<close>:
  \<^verbatim>\<open>overrideConfig\<close> under \<^verbatim>\<open>if (taskOverride && taskOverride.provider)\<close>, \<^verbatim>\<open>primaryConfig\<close>
  otherwise.
\<close>

definition selectedConfig :: "appConfig \<Rightarrow> string \<Rightarrow> providerConfig" where
  "selectedConfig cfg mode =
     (case llm_task_overrides cfg mode of
        None \<Rightarrow> primaryConfig cfg
      | Some taskOverride \<Rightarrow>
          if truthy (to_provider taskOverride) then overrideConfig cfg taskOverride
          else primaryConfig cfg)"

definition initializeProvider :: "appConfig \<Rightarrow> string \<Rightarrow> error + provider" where
  "initializeProvider cfg mode = createProvider (selectedConfig cfg mode)"

datatype role = User | Assistant

record message =
  m_role :: role
  m_content :: string

record baseAgent =
  mode :: string
  provider :: provider
  conversationHistory :: "message list"

text \<open>The constructor: it throws when \<^verbatim>\<open>_initializeProvider\<close> does.\<close>

definition newBaseAgent :: "appConfig \<Rightarrow> string \<Rightarrow> error + baseAgent" where
  "newBaseAgent cfg mode' =
     (case initializeProvider cfg mode' of
        Inl e \<Rightarrow> Inl e
      | Inr p \<Rightarrow> Inr \<lparr>mode = mode', provider = p, conversationHistory = []\<rparr>)"

text \<open>What a provider's \<^verbatim>\<open>sendMessage\<close> resolves to, and the options it is passed.\<close>

record response =
  r_message :: string
  r_inputTokens :: jsval
  r_outputTokens :: jsval
  r_stopReason :: jsval

record sendOptions =
  o_maxTokens :: jsval
  o_temperature :: jsval

text \<open>
  The environment of an agent: the configuration singleton, the two tables of prompt
  texts of \<^verbatim>\<open>getSystemPrompt\<close> (static text of the source, kept as data), and the remote
  models: \<open>llm env p history systemPrompt options\<close> is what
  \<^verbatim>\<open>p.sendMessage(history, systemPrompt, options)\<close> settles to, a rejection or a response.
\<close>

record env =
  config :: appConfig
  basePrompt :: string
  modePrompts :: "string \<Rightarrow> string option"
  llm :: "provider \<Rightarrow> message list \<Rightarrow> string \<Rightarrow> sendOptions \<Rightarrow> error + response"

text \<open>\<^verbatim>\<open>basePrompt + (modePrompts[this.mode] || modePrompts.general)\<close>\<close>

definition getSystemPrompt :: "env \<Rightarrow> baseAgent \<Rightarrow> string" where
  "getSystemPrompt e a =
     basePrompt e @
       (let general = (case modePrompts e ''general'' of Some g \<Rightarrow> g | None \<Rightarrow> [])
        in case modePrompts e (mode a) of
             Some t \<Rightarrow> if t \<noteq> [] then t else general
           | None \<Rightarrow> general)"

text \<open>
  \<^verbatim>\<open>BaseAgent.sendMessage(userMessage, options)\<close>: the user message is pushed before the
  \<^verbatim>\<open>try\<close>; the assistant message is pushed inside it, after the provider has answered; the
  \<^verbatim>\<open>catch\<close> logs and rethrows.
\<close>

definition sendMessage ::
  "env \<Rightarrow> baseAgent \<Rightarrow> string \<Rightarrow> sendOptions \<Rightarrow> (error + response) \<times> baseAgent" where
  "sendMessage e a userMessage options =
     (let a1 = a\<lparr>conversationHistory :=
                  conversationHistory a @ [\<lparr>m_role = User, m_content = userMessage\<rparr>]\<rparr>
      in case llm e (provider a1) (conversationHistory a1) (getSystemPrompt e a1)
                \<lparr>o_maxTokens = jsOr (o_maxTokens options) (llm_max_tokens (config e)),
                 o_temperature = jsOr (o_temperature options) (llm_temperature (config e))\<rparr> of
           Inr response \<Rightarrow>
             (Inr response,
              a1\<lparr>conversationHistory :=
                    conversationHistory a1 @
                      [\<lparr>m_role = Assistant, m_content = r_message response\<rparr>]\<rparr>)
         | Inl error \<Rightarrow> (Inl error, a1))"

text \<open>A call without the second argument: \<^verbatim>\<open>options = {}\<close>.\<close>

definition noOptions :: sendOptions where
  "noOptions = \<lparr>o_maxTokens = JUndefined, o_temperature = JUndefined\<rparr>"

text \<open>The \<^verbatim>\<open>config\<close> object \<^verbatim>\<open>createProvider\<close> builds, by itself.\<close>

definition clientConfigOf :: "providerConfig \<Rightarrow> clientConfig" where
  "clientConfigOf pc =
     \<lparr>cc_apiKey = pc_apiKey pc,
      cc_baseUrl = pc_baseUrl pc,
      cc_model = pc_model pc,
      cc_maxTokens = jsOr (pc_maxTokens pc) (JNum 8192),
      cc_temperature = jsOr (pc_temperature pc) (JNum (7 / 10))\<rparr>"

text \<open>
  The provider call of \<^verbatim>\<open>sendMessage\<close>, by itself: the request made for the user message
  \<open>t\<close> by an agent whose history is that of \<open>a\<close>.
\<close>

definition providerCall :: "env \<Rightarrow> baseAgent \<Rightarrow> string \<Rightarrow> sendOptions \<Rightarrow> error + response" where
  "providerCall e a t options =
     llm e (provider a) (conversationHistory a @ [\<lparr>m_role = User, m_content = t\<rparr>])
       (getSystemPrompt e a)
       \<lparr>o_maxTokens = jsOr (o_maxTokens options) (llm_max_tokens (config e)),
        o_temperature = jsOr (o_temperature options) (llm_temperature (config e))\<rparr>"

subsection \<open>The precedence rule of the specification\<close>

text \<open>
  The effective configuration as the specification words it (section 4.2 and property P3):
  each of the six fields is the override's where the override sets it, and the primary
  one otherwise. A field counts as set when its value is truthy, which is how the source
  tests the fields it does test.
\<close>

definition spec_effectiveConfig :: "appConfig \<Rightarrow> taskOverride \<Rightarrow> providerConfig" where
  "spec_effectiveConfig cfg ov =
     \<lparr>pc_provider = jsOr (to_provider ov) (llm_provider cfg),
      pc_apiKey = jsOr (to_api_key ov) (llm_api_key cfg),
      pc_baseUrl = jsOr (to_base_url ov) (llm_base_url cfg),
      pc_model = jsOr (to_model ov) (llm_model cfg),
      pc_maxTokens = jsOr (to_max_tokens ov) (llm_max_tokens cfg),
      pc_temperature = jsOr (to_temperature ov) (llm_temperature cfg)\<rparr>"

subsection \<open>Sample configurations\<close>

definition ex_pc :: providerConfig where
  "ex_pc =
     \<lparr>pc_provider = JUndefined, pc_apiKey = JStr ''sk-1'', pc_baseUrl = JUndefined,
      pc_model = JStr ''m'', pc_maxTokens = JUndefined, pc_temperature = JUndefined\<rparr>"

text \<open>An override that names a model and no provider.\<close>

definition ex_override_model :: taskOverride where
  "ex_override_model =
     \<lparr>to_provider = JUndefined, to_api_key = JUndefined, to_base_url = JUndefined,
      to_model = JStr ''gpt-4o'', to_max_tokens = JUndefined, to_temperature = JUndefined\<rparr>"

text \<open>An override that names a provider, a key and a token limit.\<close>

definition ex_override_tokens :: taskOverride where
  "ex_override_tokens =
     \<lparr>to_provider = JStr ''openai'', to_api_key = JStr ''sk-2'', to_base_url = JUndefined,
      to_model = JUndefined, to_max_tokens = JNum 1024, to_temperature = JUndefined\<rparr>"

definition ex_config :: "taskOverride option \<Rightarrow> appConfig" where
  "ex_config ov =
     \<lparr>llm_provider = JStr ''anthropic'', llm_api_key = JStr ''sk-1'', llm_base_url = JUndefined,
      llm_model = JStr ''claude-sonnet-4-5'', llm_max_tokens = JNum 8192,
      llm_temperature = JNum (7 / 10),
      llm_task_overrides = (\<lambda>m. if m = ''writer'' then ov else None)\<rparr>"

text \<open>An environment whose remote models answer every request with the same outcome.\<close>

definition ex_env :: "(error + response) \<Rightarrow> env" where
  "ex_env outcome =
     \<lparr>config = ex_config None, basePrompt = ''You are an AI agent working in AutoMCM.'',
      modePrompts = [''general'' \<mapsto> [], ''writer'' \<mapsto> ''WRITER MODE ACTIVE''],
      llm = (\<lambda>p h s options. outcome)\<rparr>"

definition ex_agent :: baseAgent where
  "ex_agent =
     \<lparr>mode = ''writer'', provider = newProvider ClaudeProvider (clientConfigOf ex_pc),
      conversationHistory = []\<rparr>"

definition ex_response :: response where
  "ex_response =
     \<lparr>r_message = ''ok'', r_inputTokens = JNum 3, r_outputTokens = JNum 1,
      r_stopReason = JStr ''end_turn''\<rparr>"

section \<open>ArtifactStore\<close>

text \<open>Decimal rendering of a non-negative integer, as a template literal renders it.\<close>

fun dec :: "nat \<Rightarrow> string" where
  "dec n =
     (if n < 10 then [''0123456789'' ! n]
      else dec (n div 10) @ [''0123456789'' ! (n mod 10)])"

declare dec.simps [simp del]

text \<open>A metadata object: its keys with their values, in insertion order.\<close>

type_synonym metadata = "(string \<times> jsval) list"

text \<open>A record of the index. The version is a counter starting at 1.\<close>

record artifact =
  a_id :: string
  a_name :: string
  a_type :: string
  a_path :: string
  a_description :: string
  a_generatedBy :: string
  a_metadata :: metadata
  a_timestamp :: string
  a_version :: nat

text \<open>The results of the three phases.\<close>

record planningResult =
  pr_ragAnalysis :: string
  pr_parse :: string
  pr_research :: string
  pr_plan :: string

record modelingResult =
  mr_model :: string

record writingResult =
  wr_paper :: string
  wr_pdfCompiled :: bool

text \<open>
  The events of the notification stream, by name: \<^verbatim>\<open>'log'\<close> with its type and message
  (the emoji that open the messages of the source are left out), \<^verbatim>\<open>'phase-change'\<close>,
  \<^verbatim>\<open>'error'\<close>, \<^verbatim>\<open>'artifact-created'\<close> with the type, the name and the metadata, the
  three completion events, and the events \<^verbatim>\<open>_emitModelingResults\<close> derives from the
  artifacts (\<^verbatim>\<open>'sensitivity-results'\<close>, \<^verbatim>\<open>'experiment-results'\<close>, \<^verbatim>\<open>'equations-extracted'\<close>,
  \<^verbatim>\<open>'validation-update'\<close>), kept by name.
\<close>

datatype logType = Info | Success | Warning | Failure

record created =
  ac_type :: string
  ac_name :: string
  ac_metadata :: metadata

datatype event =
    Log logType string
  | PhaseChange string
  | ErrorEvent error
  | ArtifactCreated created
  | PlanningComplete planningResult
  | ModelingComplete modelingResult
  | WritingComplete writingResult
  | ModelingResults string

text \<open>
  The store: the three paths of the constructor, the index in memory, and whether an
  event emitter was given (\<^verbatim>\<open>eventEmitter\<close> is \<^verbatim>\<open>null\<close> without one).
\<close>

record artifactStore =
  workspacePath :: string
  artifactsPath :: string
  indexPath :: string
  artifacts :: "artifact list"
  eventEmitter :: bool

text \<open>
  The files of the workspace, by path. \<^verbatim>\<open>fs.writeFile\<close> is modelled as succeeding: the
  claims are about what the store records, not about a disk that fails.
\<close>

type_synonym disk = "string \<rightharpoonup> string"

text \<open>
  Library functions the store calls, taken as they are: \<^verbatim>\<open>path.join\<close> and the
  \<^verbatim>\<open>JSON.stringify\<close> of the index.
\<close>

record platform =
  pathJoin :: "string \<Rightarrow> string \<Rightarrow> string"
  stringifyIndex :: "artifact list \<Rightarrow> string"

text \<open>
  What one call reads from the clock and from the random number generator:
  \<^verbatim>\<open>Date.now()\<close>, \<^verbatim>\<open>new Date().toISOString()\<close> and
  \<^verbatim>\<open>Math.random().toString(36).substring(7)\<close>.
\<close>

record ambient =
  dateNow :: nat
  isoString :: string
  random36 :: string

text \<open>
  The arguments of \<^verbatim>\<open>register\<close> and of \<^verbatim>\<open>saveArtifact\<close>; \<open>None\<close> is a key left out, for
  which the destructuring pattern has a default.
\<close>

record registerArgs =
  g_name :: string
  g_type :: string
  g_path :: string
  g_description :: "string option"
  g_generatedBy :: "string option"
  g_metadata :: "metadata option"

record saveArgs =
  s_name :: string
  s_type :: string
  s_content :: string
  s_description :: "string option"
  s_generatedBy :: "string option"
  s_metadata :: "metadata option"

text \<open>\<^verbatim>\<open>_generateId\<close>: \<^verbatim>\<open>`artifact_${Date.now()}_${Math.random().toString(36).substring(7)}`\<close>\<close>

definition generateId :: "ambient \<Rightarrow> string" where
  "generateId amb = ''artifact_'' @ dec (dateNow amb) @ ''_'' @ random36 amb"

text \<open>\<^verbatim>\<open>Array.prototype.findIndex\<close>: the first index whose element passes, \<open>None\<close> for \<open>-1\<close>.\<close>

fun findIndex :: "('a \<Rightarrow> bool) \<Rightarrow> 'a list \<Rightarrow> nat option" where
  "findIndex P [] = None"
| "findIndex P (x # xs) = (if P x then Some 0 else map_option Suc (findIndex P xs))"

definition orDefault :: "'a option \<Rightarrow> 'a \<Rightarrow> 'a" where
  "orDefault v d = (case v of None \<Rightarrow> d | Some x \<Rightarrow> x)"

text \<open>\<^verbatim>\<open>_saveIndex\<close>\<close>

definition saveIndex :: "platform \<Rightarrow> artifactStore \<Rightarrow> disk \<Rightarrow> disk" where
  "saveIndex pf st d = d(indexPath st \<mapsto> stringifyIndex pf (artifacts st))"

text \<open>
  \<^verbatim>\<open>register\<close>: a new entry with a fresh id and version 1; when an entry of the index has
  the same path, the new entry takes its id and its version plus one and replaces it,
  otherwise the new entry is pushed.
\<close>

definition register ::
  "platform \<Rightarrow> ambient \<Rightarrow> registerArgs \<Rightarrow> artifactStore \<times> disk \<Rightarrow> artifact \<times> artifactStore \<times> disk" where
  "register pf amb artifact sd =
     (let st = fst sd; d = snd sd;
          entry = \<lparr>a_id = generateId amb,
                   a_name = g_name artifact,
                   a_type = g_type artifact,
                   a_path = g_path artifact,
                   a_description = orDefault (g_description artifact) [],
                   a_generatedBy = orDefault (g_generatedBy artifact) ''unknown'',
                   a_metadata = orDefault (g_metadata artifact) [],
                   a_timestamp = isoString amb,
                   a_version = 1\<rparr>
      in case findIndex (\<lambda>a. a_path a = g_path artifact) (artifacts st) of
           Some existingIndex \<Rightarrow>
             (let entry' = entry\<lparr>a_version := a_version (artifacts st ! existingIndex) + 1,
                                a_id := a_id (artifacts st ! existingIndex)\<rparr>;
                  st' = st\<lparr>artifacts := (artifacts st)[existingIndex := entry']\<rparr>
              in (entry', st', saveIndex pf st' d))
         | None \<Rightarrow>
             (let st' = st\<lparr>artifacts := artifacts st @ [entry]\<rparr>
              in (entry, st', saveIndex pf st' d)))"

text \<open>
  \<^verbatim>\<open>saveArtifact\<close>: write the content under \<^verbatim>\<open>path.join(this.artifactsPath, name)\<close>,
  register, emit \<^verbatim>\<open>'artifact-created'\<close> when there is an emitter.
\<close>

definition saveArtifact ::
  "platform \<Rightarrow> ambient \<Rightarrow> saveArgs \<Rightarrow> artifactStore \<times> disk
     \<Rightarrow> artifact \<times> (artifactStore \<times> disk) \<times> created list" where
  "saveArtifact pf amb artifact sd =
     (let st = fst sd; d = snd sd;
          artifactPath = pathJoin pf (artifactsPath st) (s_name artifact);
          d1 = d(artifactPath \<mapsto> s_content artifact);
          reg = register pf amb
                  \<lparr>g_name = s_name artifact, g_type = s_type artifact, g_path = artifactPath,
                   g_description = Some (orDefault (s_description artifact) []),
                   g_generatedBy = Some (orDefault (s_generatedBy artifact) ''unknown''),
                   g_metadata = Some (orDefault (s_metadata artifact) [])\<rparr>
                  (st, d1);
          result = fst reg
      in (result, snd reg,
          if eventEmitter st
          then [\<lparr>ac_type = s_type artifact, ac_name = s_name artifact,
                  ac_metadata = a_metadata result\<rparr>]
          else []))"

text \<open>A sequence of \<^verbatim>\<open>saveArtifact\<close> calls, with the entries they return, in call order.\<close>

fun saveArtifacts ::
  "platform \<Rightarrow> (ambient \<times> saveArgs) list \<Rightarrow> artifactStore \<times> disk
     \<Rightarrow> artifact list \<times> (artifactStore \<times> disk)" where
  "saveArtifacts pf [] sd = ([], sd)"
| "saveArtifacts pf (c # cs) sd =
     (let r = saveArtifact pf (fst c) (snd c) sd;
          rest = saveArtifacts pf cs (fst (snd r))
      in (fst r # fst rest, snd rest))"

text \<open>The entry of the index stored under a path, and its version (0 when there is none).\<close>

definition lookupPath :: "string \<Rightarrow> artifactStore \<Rightarrow> artifact option" where
  "lookupPath p st = find (\<lambda>a. a_path a = p) (artifacts st)"

definition recordedVersion :: "string \<Rightarrow> artifactStore \<Rightarrow> nat" where
  "recordedVersion p st = (case lookupPath p st of None \<Rightarrow> 0 | Some a \<Rightarrow> a_version a)"

text \<open>The path \<^verbatim>\<open>saveArtifact\<close> stores a name under.\<close>

definition storagePath :: "platform \<Rightarrow> artifactStore \<Rightarrow> string \<Rightarrow> string" where
  "storagePath pf st name = pathJoin pf (artifactsPath st) name"

subsection \<open>A sample store\<close>

definition ex_platform :: platform where
  "ex_platform =
     \<lparr>pathJoin = (\<lambda>d n. d @ ''/'' @ n), stringifyIndex = (\<lambda>as. concat (map a_name as))\<rparr>"

definition ex_store :: artifactStore where
  "ex_store = \<lparr>workspacePath = ''ws'', artifactsPath = ''ws/artifacts'',
                indexPath = ''ws/artifacts/index.json'', artifacts = [], eventEmitter = True\<rparr>"

definition ex_save :: "string \<Rightarrow> string \<Rightarrow> saveArgs" where
  "ex_save name content =
     \<lparr>s_name = name, s_type = ''code'', s_content = content, s_description = None,
      s_generatedBy = None, s_metadata = None\<rparr>"

definition ex_ambient :: "nat \<Rightarrow> ambient" where
  "ex_ambient n =
     \<lparr>dateNow = 1700000000000 + n, isoString = ''2023-11-14T22:13:20.000Z'',
      random36 = ''k3x9f''\<rparr>"

definition ex_calls :: "(ambient \<times> saveArgs) list" where
  "ex_calls =
     [(ex_ambient 0, ex_save ''model.py'' ''v1''), (ex_ambient 5, ex_save ''model.py'' ''v2'')]"

section \<open>MasterAgent\<close>

text \<open>
  An entry of \<^verbatim>\<open>this.clones\<close>. The field \<^verbatim>\<open>agent\<close> holds a reference to the clone's
  \<^verbatim>\<open>BaseAgent\<close> object; \<^verbatim>\<open>executeParallel\<close> finds an entry again by comparing references
  (\<^verbatim>\<open>c.agent === clone\<close>), so the agents live in a heap, \<open>agents\<close>, and a reference is
  an index into it.
\<close>

record clone =
  c_id :: string
  c_agent :: nat
  c_mode :: string
  c_task :: string
  c_status :: string

text \<open>
  The master agent: its own \<^verbatim>\<open>BaseAgent\<close> part, the phase, the clone registry with the
  heap of clone agents, the path of the workspace (\<open>None\<close> while \<^verbatim>\<open>this.workspace\<close> is
  \<^verbatim>\<open>null\<close>), the artifact store (\<open>None\<close> while \<^verbatim>\<open>null\<close>), and the files of the workspace,
  which the specification gives to one orchestrator at a time.
\<close>

record masterAgent =
  self :: baseAgent
  phase :: string
  clones :: "clone list"
  agents :: "baseAgent list"
  workspace :: "string option"
  artifactStore :: "artifactStore option"
  files :: disk

text \<open>
  \<^verbatim>\<open>spawnClone(mode, task)\<close>: a new \<^verbatim>\<open>BaseAgent(mode)\<close>, whose constructor may throw, and a
  registry entry with the id \<^verbatim>\<open>`${mode}-${Date.now()}`\<close> and the status \<^verbatim>\<open>'running'\<close>;
  \<open>now\<close> is the reading of \<^verbatim>\<open>Date.now()\<close>. The result is the reference to the new agent.
\<close>

definition spawnClone ::
  "env \<Rightarrow> nat \<Rightarrow> string \<Rightarrow> string \<Rightarrow> masterAgent \<Rightarrow> (error + nat) \<times> masterAgent" where
  "spawnClone e now md task m =
     (case newBaseAgent (config e) md of
        Inl err \<Rightarrow> (Inl err, m)
      | Inr clone \<Rightarrow>
          (Inr (length (agents m)),
           m\<lparr>agents := agents m @ [clone],
             clones := clones m @
               [\<lparr>c_id = md @ ''-'' @ dec now, c_agent = length (agents m), c_mode = md,
                 c_task = task, c_status = ''running''\<rparr>]\<rparr>))"

text \<open>\<^verbatim>\<open>getClones\<close>: the entries still \<^verbatim>\<open>'running'\<close>.\<close>

definition getClones :: "masterAgent \<Rightarrow> clone list" where
  "getClones m = filter (\<lambda>c. c_status c = ''running'') (clones m)"

subsection \<open>executeParallel\<close>

text \<open>
  \<^verbatim>\<open>executeParallel(tasks)\<close> maps an \<^verbatim>\<open>async\<close> callback over the tasks and awaits
  \<^verbatim>\<open>Promise.all\<close> of the promises. Each callback runs without interruption up to its first
  suspension: it spawns the clone and enters \<^verbatim>\<open>clone.sendMessage(message)\<close>, which pushes
  the user message and issues the request. So all clones are spawned, in task order,
  before any request settles. The requests then settle in an order the program does not
  control; the continuation of a callback whose request was answered pushes the
  assistant message, marks the clone \<^verbatim>\<open>'completed'\<close> and fulfils the promise of the
  callback; the continuation of a callback whose request failed only rejects it.
\<close>

record cloneTask =
  t_mode :: string
  t_task :: string
  t_message :: string

record taskResult =
  tr_mode :: string
  tr_task :: string
  tr_result :: response

text \<open>
  The two halves of \<^verbatim>\<open>BaseAgent.sendMessage\<close>, before and after its \<^verbatim>\<open>await\<close>.
\<close>

definition pushUser :: "baseAgent \<Rightarrow> string \<Rightarrow> baseAgent" where
  "pushUser a t =
     a\<lparr>conversationHistory := conversationHistory a @ [\<lparr>m_role = User, m_content = t\<rparr>]\<rparr>"

definition pushAssistant :: "baseAgent \<Rightarrow> response \<Rightarrow> baseAgent" where
  "pushAssistant a r =
     a\<lparr>conversationHistory :=
         conversationHistory a @ [\<lparr>m_role = Assistant, m_content = r_message r\<rparr>]\<rparr>"

text \<open>
  A task as a run of \<^verbatim>\<open>executeParallel\<close> meets it: the task, the reading of \<^verbatim>\<open>Date.now()\<close>
  in its \<^verbatim>\<open>spawnClone\<close>, and the remote models as they answer the request of its callback.
  Each callback issues a request of its own, so two requests, even equal ones, may be
  answered differently: \<open>k_llm\<close> stands for \<open>llm\<close> of the environment in this callback.
\<close>

record taskRun =
  k_task :: cloneTask
  k_now :: nat
  k_llm :: "provider \<Rightarrow> message list \<Rightarrow> string \<Rightarrow> sendOptions \<Rightarrow> error + response"

text \<open>A task in flight: the clone's agent and what its request will settle to.\<close>

record inFlight =
  f_agent :: nat
  f_outcome :: "error + response"

text \<open>
  A callback up to its suspension. The request carries the history as it is when it is
  issued, and settles as the remote models answer this callback.
\<close>

definition startTask ::
  "env \<Rightarrow> taskRun \<Rightarrow> masterAgent \<Rightarrow> (error + inFlight) \<times> masterAgent" where
  "startTask e k m =
     (case spawnClone e (k_now k) (t_mode (k_task k)) (t_task (k_task k)) m of
        (Inl err, m') \<Rightarrow> (Inl err, m')
      | (Inr clone, m') \<Rightarrow>
          (Inr \<lparr>f_agent = clone,
                f_outcome =
                  providerCall (e\<lparr>llm := k_llm k\<rparr>) (agents m' ! clone)
                    (t_message (k_task k)) noOptions\<rparr>,
           m'\<lparr>agents :=
                (agents m')[clone := pushUser (agents m' ! clone) (t_message (k_task k))]\<rparr>))"

fun startAll ::
  "env \<Rightarrow> taskRun list \<Rightarrow> masterAgent \<Rightarrow> (error + inFlight) list \<times> masterAgent" where
  "startAll e [] m = ([], m)"
| "startAll e (k # ks) m =
     (let r = startTask e k m;
          rest = startAll e ks (snd r)
      in (fst r # fst rest, snd rest))"

text \<open>\<^verbatim>\<open>cloneEntry.status = 'completed'\<close> on the entry \<^verbatim>\<open>find\<close> returns.\<close>

definition markCompleted :: "nat \<Rightarrow> masterAgent \<Rightarrow> masterAgent" where
  "markCompleted clone m =
     (case findIndex (\<lambda>c. c_agent c = clone) (clones m) of
        None \<Rightarrow> m
      | Some i \<Rightarrow> m\<lparr>clones := (clones m)[i := (clones m ! i)\<lparr>c_status := ''completed''\<rparr>]\<rparr>)"

text \<open>The continuation of one callback after its await.\<close>

definition settleTask :: "(error + inFlight) \<Rightarrow> masterAgent \<Rightarrow> masterAgent" where
  "settleTask h m =
     (case h of
        Inl err \<Rightarrow> m
      | Inr f \<Rightarrow>
          (case f_outcome f of
             Inl err \<Rightarrow> m
           | Inr r \<Rightarrow>
               markCompleted (f_agent f)
                 (m\<lparr>agents := (agents m)[f_agent f := pushAssistant (agents m ! f_agent f) r]\<rparr>)))"

text \<open>
  The requests settle in the order \<open>order\<close>, a list of task indices; an index that is
  out of range or has settled before is skipped, so that every list is a schedule.
  \<open>settled\<close> holds the promises settled so far.
\<close>

fun settleAll ::
  "(error + inFlight) list \<Rightarrow> nat list \<Rightarrow> nat list \<Rightarrow> masterAgent \<Rightarrow> masterAgent" where
  "settleAll hs [] settled m = m"
| "settleAll hs (i # order) settled m =
     (if i < length hs \<and> i \<notin> set settled
      then settleAll hs order (i # settled) (settleTask (hs ! i) m)
      else settleAll hs order settled m)"

text \<open>What the promise of a callback settles to.\<close>

definition promiseOf :: "cloneTask \<Rightarrow> (error + inFlight) \<Rightarrow> error + taskResult" where
  "promiseOf t h =
     (case h of
        Inl err \<Rightarrow> Inl err
      | Inr f \<Rightarrow>
          (case f_outcome f of
             Inl err \<Rightarrow> Inl err
           | Inr r \<Rightarrow> Inr \<lparr>tr_mode = t_mode t, tr_task = t_task t, tr_result = r\<rparr>))"

text \<open>
  \<^verbatim>\<open>Promise.all\<close>: it rejects with the reason of the promise that rejects first; it is
  fulfilled, once every promise is, with the values in the order of the promises; and it
  stays pending (\<open>None\<close>) otherwise.
\<close>

fun collect :: "(error + 'a) list \<Rightarrow> 'a list option" where
  "collect [] = Some []"
| "collect (Inl e # ps) = None"
| "collect (Inr v # ps) = map_option ((#) v) (collect ps)"

fun firstRejection :: "(error + 'a) list \<Rightarrow> nat list \<Rightarrow> error option" where
  "firstRejection ps [] = None"
| "firstRejection ps (i # order) =
     (if i < length ps
      then (case ps ! i of Inl e \<Rightarrow> Some e | Inr v \<Rightarrow> firstRejection ps order)
      else firstRejection ps order)"

definition promiseAll :: "(error + 'a) list \<Rightarrow> nat list \<Rightarrow> (error + 'a list) option" where
  "promiseAll ps order =
     (case firstRejection ps order of
        Some e \<Rightarrow> Some (Inl e)
      | None \<Rightarrow> if (\<forall>i<length ps. i \<in> set order) then map_option Inr (collect ps) else None)"

text \<open>
  \<^verbatim>\<open>executeParallel\<close>: each task comes with the clock reading of its spawn and the answer
  to its request; \<open>order\<close> is the order in which the requests settle. The promise of a
  callback whose \<^verbatim>\<open>spawnClone\<close> threw is rejected before any request settles. The state
  returned is the state once the requests of \<open>order\<close> have settled: the callbacks of the
  other tasks go on after \<^verbatim>\<open>Promise.all\<close> has rejected.
\<close>

definition executeParallel ::
  "env \<Rightarrow> taskRun list \<Rightarrow> nat list \<Rightarrow> masterAgent
     \<Rightarrow> (error + taskResult list) option \<times> masterAgent" where
  "executeParallel e tasks order m =
     (let started = startAll e tasks m;
          hs = fst started;
          immediate = filter (\<lambda>i. isl (hs ! i)) [0..<length hs]
      in (promiseAll (map2 promiseOf (map k_task tasks) hs) (immediate @ order),
          settleAll hs order immediate (snd started)))"

subsection \<open>Notions for stating the properties of executeParallel\<close>

text \<open>What the request of a task settles to: it is sent by a fresh agent of the task's mode.\<close>

definition taskOutcome :: "env \<Rightarrow> taskRun \<Rightarrow> error + response" where
  "taskOutcome e k =
     (case newBaseAgent (config e) (t_mode (k_task k)) of
        Inl err \<Rightarrow> Inl err
      | Inr a \<Rightarrow> providerCall (e\<lparr>llm := k_llm k\<rparr>) a (t_message (k_task k)) noOptions)"

text \<open>Every entry of the registry refers to an agent of the heap.\<close>

definition registryOk :: "masterAgent \<Rightarrow> bool" where
  "registryOk m = list_all (\<lambda>c. c_agent c < length (agents m)) (clones m)"

subsection \<open>A sample orchestrator\<close>

definition ex_master :: masterAgent where
  "ex_master =
     \<lparr>self = ex_agent\<lparr>mode := ''general''\<rparr>, phase = ''idle'', clones = [], agents = [],
      workspace = None, artifactStore = None, files = Map.empty\<rparr>"

definition ex_task :: "string \<Rightarrow> cloneTask" where
  "ex_task msg = \<lparr>t_mode = ''researcher'', t_task = ''Find papers'', t_message = msg\<rparr>"

text \<open>
  Remote models that fail on the conversation \<open>bad\<close> and echo every other conversation.
\<close>

definition ex_env2 :: env where
  "ex_env2 =
     (ex_env (Inr ex_response))
       \<lparr>llm := (\<lambda>p h s options.
           if h = [\<lparr>m_role = User, m_content = ''bad''\<rparr>]
           then Inl (Error ''API request failed: 500'')
           else Inr (ex_response\<lparr>r_message := concat (map m_content h)\<rparr>))\<rparr>"

text \<open>A result that is not an exception.\<close>

definition fulfilled :: "'e + 'a \<Rightarrow> bool" where
  "fulfilled r = (case r of Inl e \<Rightarrow> False | Inr v \<Rightarrow> True)"

text \<open>The agent of every task can be constructed: its provider is a supported one.\<close>

definition spawnable :: "env \<Rightarrow> taskRun list \<Rightarrow> bool" where
  "spawnable e tasks =
     list_all (\<lambda>k. fulfilled (newBaseAgent (config e) (t_mode (k_task k)))) tasks"

definition freshAgent :: "env \<Rightarrow> cloneTask \<Rightarrow> baseAgent" where
  "freshAgent e t = projr (newBaseAgent (config e) (t_mode t))"

text \<open>
  The registry entry and the agent of task \<open>i\<close>, and the whole state, once the requests of
  the tasks in \<open>S\<close> have settled; \<open>n0\<close> is the size of the heap before the call.
\<close>

definition cloneEntryAt :: "env \<Rightarrow> nat \<Rightarrow> taskRun list \<Rightarrow> nat set \<Rightarrow> nat \<Rightarrow> clone" where
  "cloneEntryAt e n0 tasks S i =
     \<lparr>c_id = t_mode (k_task (tasks ! i)) @ ''-'' @ dec (k_now (tasks ! i)),
      c_agent = n0 + i,
      c_mode = t_mode (k_task (tasks ! i)),
      c_task = t_task (k_task (tasks ! i)),
      c_status = (if i \<in> S \<and> fulfilled (taskOutcome e (tasks ! i)) then ''completed''
                  else ''running'')\<rparr>"

definition agentAt :: "env \<Rightarrow> taskRun list \<Rightarrow> nat set \<Rightarrow> nat \<Rightarrow> baseAgent" where
  "agentAt e tasks S i =
     (let t = k_task (tasks ! i); a = pushUser (freshAgent e t) (t_message t)
      in if i \<in> S
         then (case taskOutcome e (tasks ! i) of Inl err \<Rightarrow> a | Inr r \<Rightarrow> pushAssistant a r)
         else a)"

definition settledState :: "env \<Rightarrow> masterAgent \<Rightarrow> taskRun list \<Rightarrow> nat set \<Rightarrow> masterAgent" where
  "settledState e m tasks S =
     m\<lparr>agents := agents m @ map (agentAt e tasks S) [0..<length tasks],
       clones := clones m @ map (cloneEntryAt e (length (agents m)) tasks S) [0..<length tasks]\<rparr>"

text \<open>The request of task \<open>i\<close> in flight.\<close>

definition handleAt :: "env \<Rightarrow> nat \<Rightarrow> taskRun list \<Rightarrow> nat \<Rightarrow> error + inFlight" where
  "handleAt e n0 tasks i = Inr \<lparr>f_agent = n0 + i, f_outcome = taskOutcome e (tasks ! i)\<rparr>"

text \<open>What the promise of a task settles to.\<close>

definition taskPromise :: "env \<Rightarrow> taskRun \<Rightarrow> error + taskResult" where
  "taskPromise e k =
     (case taskOutcome e k of
        Inl err \<Rightarrow> Inl err
      | Inr r \<Rightarrow> Inr \<lparr>tr_mode = t_mode (k_task k), tr_task = t_task (k_task k), tr_result = r\<rparr>)"

text \<open>
  Two tasks for researchers, spawned in one millisecond: the request of the first is
  answered, the request of the second fails.
\<close>

definition ex_answered :: taskRun where
  "ex_answered =
     \<lparr>k_task = \<lparr>t_mode = ''researcher'', t_task = ''Find papers'',
                  t_message = ''List three papers on queueing models.''\<rparr>,
      k_now = 1700000000000,
      k_llm = (\<lambda>p h s options. Inr (ex_response\<lparr>r_message := ''Kendall 1953; Little 1961; Kingman 1962''\<rparr>))\<rparr>"

definition ex_failed :: taskRun where
  "ex_failed =
     \<lparr>k_task = \<lparr>t_mode = ''researcher'', t_task = ''Survey datasets'',
                  t_message = ''List public datasets of call arrivals.''\<rparr>,
      k_now = 1700000000000,
      k_llm = (\<lambda>p h s options. Inl (Error ''API request failed: 500''))\<rparr>"

text \<open>Three tasks with one and the same request, answered in three ways.\<close>

definition ex_same :: "string \<Rightarrow> taskRun" where
  "ex_same answer =
     \<lparr>k_task = ex_task ''Summarise the problem.'', k_now = 1700000000000,
      k_llm = (\<lambda>p h s options. Inr (ex_response\<lparr>r_message := answer\<rparr>))\<rparr>"

definition ex_tasks :: "taskRun list" where
  "ex_tasks = [ex_same ''a'', ex_same ''b'', ex_same ''c'']"

section \<open>Strings\<close>

text \<open>The strings of the source are searched with the following functions.\<close>

abbreviation BS :: char where "BS \<equiv> CHR 0x5C"

abbreviation NL :: char where "NL \<equiv> CHR 0x0A"

text \<open>
  The class \<^verbatim>\<open>\s\<close> of a regular expression, which is also what \<^verbatim>\<open>trim\<close> strips: tab, line
  feed, vertical tab, form feed, carriage return, space and no-break space, among the
  code units below 256. The dot of a regular expression matches all but the line
  terminators.
\<close>

definition isSpace :: "char \<Rightarrow> bool" where
  "isSpace c = (of_char c \<in> {9, 10, 11, 12, 13, 32, 160 :: nat})"

definition isLineTerminator :: "char \<Rightarrow> bool" where
  "isLineTerminator c = (of_char c \<in> {10, 13 :: nat})"

text \<open>\<^verbatim>\<open>startsWith\<close>, \<^verbatim>\<open>indexOf\<close>, \<^verbatim>\<open>includes\<close>, \<^verbatim>\<open>lastIndexOf\<close> (\<open>None\<close> for \<open>-1\<close>), \<^verbatim>\<open>substring\<close>
  (which swaps its arguments when the first is the greater) and \<^verbatim>\<open>trim\<close>.\<close>

definition startsWith :: "string \<Rightarrow> string \<Rightarrow> bool" where
  "startsWith s p = (take (length p) s = p)"

fun indexOf :: "string \<Rightarrow> string \<Rightarrow> nat option" where
  "indexOf [] p = (if p = [] then Some 0 else None)"
| "indexOf (c # cs) p =
     (if startsWith (c # cs) p then Some 0 else map_option Suc (indexOf cs p))"

definition includesStr :: "string \<Rightarrow> string \<Rightarrow> bool" where
  "includesStr s p = (indexOf s p \<noteq> None)"

fun lastIndexOf :: "string \<Rightarrow> string \<Rightarrow> nat option" where
  "lastIndexOf [] p = (if p = [] then Some 0 else None)"
| "lastIndexOf (c # cs) p =
     (case lastIndexOf cs p of
        Some i \<Rightarrow> Some (Suc i)
      | None \<Rightarrow> if startsWith (c # cs) p then Some 0 else None)"

definition substring :: "string \<Rightarrow> nat \<Rightarrow> nat \<Rightarrow> string" where
  "substring s a b = take (max a b - min a b) (drop (min a b) s)"

definition trim :: "string \<Rightarrow> string" where
  "trim s = rev (dropWhile isSpace (rev (dropWhile isSpace s)))"

text \<open>
  \<^verbatim>\<open>s.split(/\s+/)\<close>: the pieces between the maximal runs of white space; a run at the
  start or at the end of the string leaves an empty piece there, and the empty string
  splits into one empty piece.
\<close>

function wordsFrom :: "string \<Rightarrow> string \<Rightarrow> string list" where
  "wordsFrom tok [] = [tok]"
| "wordsFrom tok (c # cs) =
     (if isSpace c then tok # wordsFrom [] (dropWhile isSpace cs)
      else wordsFrom (tok @ [c]) cs)"
  by pat_completeness auto
termination
  by (relation "measure (\<lambda>(tok, s). length s)")
     (auto simp: less_Suc_eq_le length_dropWhile_le)

definition splitWhitespace :: "string \<Rightarrow> string list" where
  "splitWhitespace s = wordsFrom [] s"

text \<open>
  \<^verbatim>\<open>(s.match(/p/g) || []).length\<close> for a pattern \<open>p\<close> without operators: the matches are
  found from left to right, and the search goes on after the end of a match.
\<close>

function countMatches :: "string \<Rightarrow> string \<Rightarrow> nat" where
  "countMatches [] p = 0"
| "countMatches (c # cs) p =
     (if startsWith (c # cs) p then Suc (countMatches (drop (length p - 1) cs) p)
      else countMatches cs p)"
  by pat_completeness auto
termination
  by (relation "measure (\<lambda>(s, p). length s)") auto

text \<open>Some position of the string has the property: \<open>P\<close> holds of the rest from there.\<close>

fun existsSuffix :: "(string \<Rightarrow> bool) \<Rightarrow> string \<Rightarrow> bool" where
  "existsSuffix P [] = P []"
| "existsSuffix P (c # cs) = (P (c # cs) \<or> existsSuffix P cs)"

section \<open>Paper validation\<close>

text \<open>The object \<^verbatim>\<open>_validatePaperCompleteness\<close> returns.\<close>

record validation =
  v_estimatedPages :: nat
  v_figureCount :: nat
  v_tableCount :: nat
  v_equationCount :: nat
  v_sectionCount :: nat
  v_hasExperimentalSection :: bool
  v_isComplete :: bool

text \<open>
  \<^verbatim>\<open>/\\section\{.*[Ee]xperiment.*\}|\\section\{.*[Rr]esult.*\}|\\section\{.*[Vv]alidation.*\}/.test(s)\<close>:
  at some position the text \<^verbatim>\<open>\section{\<close> starts, and the rest of its line holds one of
  the six keywords with a closing brace somewhere after it. (If a brace follows some
  occurrence of a keyword it follows the first one, so the first is the one looked at.)
\<close>

definition keywordThenBrace :: "string \<Rightarrow> string \<Rightarrow> bool" where
  "keywordThenBrace line kw =
     (case indexOf line kw of
        None \<Rightarrow> False
      | Some i \<Rightarrow> CHR ''}'' \<in> set (drop (i + length kw) line))"

definition sectionHeadingAt :: "string list \<Rightarrow> string \<Rightarrow> bool" where
  "sectionHeadingAt kws t =
     (startsWith t (BS # ''section{'')
      \<and> list_ex (keywordThenBrace (takeWhile (\<lambda>c. \<not> isLineTerminator c) (drop 9 t))) kws)"

definition hasExperimentalSection :: "string \<Rightarrow> bool" where
  "hasExperimentalSection latexContent =
     existsSuffix
       (sectionHeadingAt
          [''Experiment'', ''experiment'', ''Result'', ''result'', ''Validation'', ''validation''])
       latexContent"

text \<open>\<^verbatim>\<open>latexContent.split(/\s+/).length\<close>\<close>

definition wordCount :: "string \<Rightarrow> nat" where
  "wordCount latexContent = length (splitWhitespace latexContent)"

text \<open>
  \<^verbatim>\<open>_validatePaperCompleteness\<close>. \<^verbatim>\<open>Math.ceil(wordCount / 450)\<close> is computed on integers: the
  quotient of a count below \<open>2^53\<close> by 450 is rounded by less than its distance to the
  next integer, so the ceiling is the exact one.
\<close>

definition validatePaperCompleteness :: "string \<Rightarrow> validation" where
  "validatePaperCompleteness latexContent =
     (let estimatedPages = (wordCount latexContent + 449) div 450;
          figureCount = countMatches latexContent (BS # ''begin{figure}'');
          tableCount = countMatches latexContent (BS # ''begin{table}'');
          equationCount = countMatches latexContent (BS # ''begin{equation}'');
          sectionCount = countMatches latexContent (BS # ''section{'');
          hasExperimental = hasExperimentalSection latexContent
      in \<lparr>v_estimatedPages = estimatedPages,
          v_figureCount = figureCount,
          v_tableCount = tableCount,
          v_equationCount = equationCount,
          v_sectionCount = sectionCount,
          v_hasExperimentalSection = hasExperimental,
          v_isComplete = (estimatedPages \<ge> 12 \<and> figureCount \<ge> 4 \<and> hasExperimental)\<rparr>)"

text \<open>
  \<^verbatim>\<open>message.match(/```(?:latex)?\n?([\s\S]*?)```/)\<close>, its first group: after the first
  fence, an optional \<^verbatim>\<open>latex\<close> and an optional line feed, the text up to the next fence. (The
  optional parts hold no backquote, so giving them back finds no fence that was not found
  with them, nor does a later start.)
\<close>

definition codeBlockMatch :: "string \<Rightarrow> string option" where
  "codeBlockMatch message =
     (case indexOf message ''```'' of
        None \<Rightarrow> None
      | Some i \<Rightarrow>
          (let r0 = drop (i + 3) message;
               r1 = (if startsWith r0 ''latex'' then drop 5 r0 else r0);
               r2 = (if startsWith r1 [NL] then drop 1 r1 else r1)
           in case indexOf r2 ''```'' of
                None \<Rightarrow> None
              | Some k \<Rightarrow> Some (take k r2)))"

text \<open>The basic template \<^verbatim>\<open>_extractLatexFromResponse\<close> falls back to.\<close>

definition basicTemplate :: "string \<Rightarrow> string" where
  "basicTemplate message =
     BS # ''documentclass[12pt]{article}'' @ NL #
     BS # ''usepackage{amsmath, amsfonts, graphicx}'' @ NL #
     BS # ''title{Mathematical Modeling Paper}'' @ NL #
     BS # ''author{Team}'' @ NL #
     BS # ''date{'' @ BS # ''today}'' @ NL #
     BS # ''begin{document}'' @ NL #
     BS # ''maketitle'' @ NL #
     BS # ''section{Introduction}'' @ NL #
     message @ NL #
     BS # ''end{document}''"

text \<open>\<^verbatim>\<open>_extractLatexFromResponse\<close>, with its four cases in the order of the source.\<close>

definition extractLatexFromResponse :: "string \<Rightarrow> string" where
  "extractLatexFromResponse message =
     (case codeBlockMatch message of
        Some block \<Rightarrow> trim block
      | None \<Rightarrow>
          if includesStr message (BS # ''documentclass'')
             \<and> includesStr message (BS # ''begin{document}'')
          then trim message
          else (case (indexOf message (BS # ''documentclass''),
                      lastIndexOf message (BS # ''end{document}'')) of
                  (Some latexStart, Some latexEnd) \<Rightarrow>
                    trim (substring message latexStart (latexEnd + length (BS # ''end{document}'')))
                | _ \<Rightarrow> basicTemplate message))"

section \<open>The phases of the master agent\<close>

text \<open>\<^verbatim>\<open>clone.sendMessage(message)\<close> on a clone of the heap.\<close>

definition cloneSendMessage ::
  "env \<Rightarrow> nat \<Rightarrow> string \<Rightarrow> masterAgent \<Rightarrow> (error + response) \<times> masterAgent" where
  "cloneSendMessage e clone userMessage m =
     (let r = sendMessage e (agents m ! clone) userMessage noOptions
      in (fst r, m\<lparr>agents := (agents m)[clone := snd r]\<rparr>))"

subsection \<open>executeModelingPhase\<close>

text \<open>
  What the modeling phase takes from outside: the clock reading of its \<^verbatim>\<open>spawnClone\<close>; the
  data context, built from \<^verbatim>\<open>this.dataManager.getSummary()\<close>, which throws when there is no
  data manager; the text of the prompt, given the plan and the data context; and the rest
  of the phase after the model was implemented (the experiments, the visualizations, the
  sensitivity analysis and the saves of their results), which runs child processes.
\<close>

record modelingEnv =
  me_now :: nat
  me_dataContext :: "masterAgent \<Rightarrow> error + string"
  me_prompt :: "string \<Rightarrow> string \<Rightarrow> string"
  me_rest ::
    "string \<Rightarrow> response \<Rightarrow> masterAgent \<Rightarrow> (error + unit) \<times> masterAgent \<times> created list"

text \<open>
  \<^verbatim>\<open>MasterAgent.executeModelingPhase(approvedPlan)\<close>. The log lines before the check call
  \<^verbatim>\<open>approvedPlan.substring\<close> when the plan is truthy, which throws for a truthy value that is
  not a string. Then \<^verbatim>\<open>if (!approvedPlan || approvedPlan === 'null') throw\<close>; only then the
  phase is set, the clone is spawned and the request is sent, inside a \<^verbatim>\<open>try\<close> whose
  \<^verbatim>\<open>catch\<close> logs and rethrows.
\<close>

definition executeModelingPhase ::
  "env \<Rightarrow> modelingEnv \<Rightarrow> jsval \<Rightarrow> masterAgent
     \<Rightarrow> (error + modelingResult) \<times> masterAgent \<times> created list" where
  "executeModelingPhase e me approvedPlan m =
     (case approvedPlan of
        JBool True \<Rightarrow> (Inl (TypeError ''approvedPlan.substring is not a function''), m, [])
      | JNum n \<Rightarrow>
          if n \<noteq> 0 then (Inl (TypeError ''approvedPlan.substring is not a function''), m, [])
          else (Inl (Error ''Invalid plan received. Plan is null or empty.''), m, [])
      | JStr plan \<Rightarrow>
          if plan = [] \<or> plan = ''null''
          then (Inl (Error ''Invalid plan received. Plan is null or empty.''), m, [])
          else
            (let m1 = m\<lparr>phase := ''modeling''\<rparr>
             in case spawnClone e (me_now me) ''modeler'' ''Implement mathematical model'' m1 of
                  (Inl err, m2) \<Rightarrow> (Inl err, m2, [])
                | (Inr modelerClone, m2) \<Rightarrow>
                    (case me_dataContext me m2 of
                       Inl err \<Rightarrow> (Inl err, m2, [])
                     | Inr dataContext \<Rightarrow>
                         (case cloneSendMessage e modelerClone (me_prompt me plan dataContext) m2 of
                            (Inl err, m3) \<Rightarrow> (Inl err, m3, [])
                          | (Inr modelResult, m3) \<Rightarrow>
                              (case me_rest me plan modelResult m3 of
                                 (Inl err, m4, evs) \<Rightarrow> (Inl err, m4, evs)
                               | (Inr u, m4, evs) \<Rightarrow>
                                   (Inr \<lparr>mr_model = r_message modelResult\<rparr>, m4, evs)))))
      | _ \<Rightarrow> (Inl (Error ''Invalid plan received. Plan is null or empty.''), m, []))"

subsection \<open>executeWritingPhase\<close>

text \<open>
  What the writing phase takes from outside: the clock reading of its \<^verbatim>\<open>spawnClone\<close>; the
  modeling context \<^verbatim>\<open>_gatherModelingContext\<close> reads from the store and the files (it
  catches its own exceptions); the texts of the two prompts and of
  \<^verbatim>\<open>_formatWritingDocument\<close>; two timestamps; the readings of the \<^verbatim>\<open>saveArtifact\<close> call; and
  whether the compilation of step 2 produced a PDF (its exceptions are caught there).
\<close>

record writingEnv =
  we_now :: nat
  we_context :: "artifactStore option \<Rightarrow> disk \<Rightarrow> string"
  we_paperPrompt :: "string \<Rightarrow> string"
  we_formatDocument :: "string \<Rightarrow> string \<Rightarrow> string"
  we_timestamp :: string
  we_metadataTimestamp :: string
  we_ambient :: ambient
  we_pdfCompiled :: bool
  we_expansionPrompt :: "validation \<Rightarrow> string"

text \<open>\<^verbatim>\<open>if (this.artifactStore) { await this.artifactStore.saveArtifact({...}) }\<close>\<close>

definition saveWritingDocument ::
  "platform \<Rightarrow> writingEnv \<Rightarrow> string \<Rightarrow> masterAgent \<Rightarrow> masterAgent \<times> created list" where
  "saveWritingDocument pf we writingDocument m =
     (case artifactStore m of
        None \<Rightarrow> (m, [])
      | Some store \<Rightarrow>
          (let r = saveArtifact pf (we_ambient we)
                     \<lparr>s_name = ''writing-phase-result.md'', s_type = ''document'',
                      s_content = writingDocument, s_description = None, s_generatedBy = None,
                      s_metadata = Some [(''phase'', JStr ''writing''), (''version'', JStr ''1.0''),
                                         (''timestamp'', JStr (we_metadataTimestamp we))]\<rparr>
                     (store, files m)
           in (m\<lparr>artifactStore := Some (fst (fst (snd r))), files := snd (fst (snd r))\<rparr>,
               snd (snd r))))"

text \<open>The condition of step 3 under which the paper is expanded.\<close>

definition needsExpansion :: "validation \<Rightarrow> bool" where
  "needsExpansion validation =
     (v_estimatedPages validation < 12 \<or> v_figureCount validation < 4
      \<or> \<not> v_hasExperimentalSection validation)"

text \<open>The first message to the writer: the prompt around the modeling context.\<close>

definition paperPrompt :: "writingEnv \<Rightarrow> masterAgent \<Rightarrow> string" where
  "paperPrompt we m = we_paperPrompt we (we_context we (artifactStore m) (files m))"

text \<open>
  Steps 3 and 4 of \<^verbatim>\<open>executeWritingPhase\<close>: read \<^verbatim>\<open>paper.tex\<close> back, validate it, and if it
  falls short send one expansion request to the writer and write the LaTeX of the answer
  over \<^verbatim>\<open>paper.tex\<close>. (The validation of the expanded paper is only logged, and the second
  compilation changes no result.)
\<close>

definition validateAndExpand ::
  "env \<Rightarrow> writingEnv \<Rightarrow> nat \<Rightarrow> string \<Rightarrow> masterAgent \<Rightarrow> (error + unit) \<times> masterAgent" where
  "validateAndExpand e we writerClone paperPath m =
     (case files m paperPath of
        None \<Rightarrow> (Inl (Error (''ENOENT: no such file or directory, open '' @ paperPath)), m)
      | Some latexContentForValidation \<Rightarrow>
          (let validation = validatePaperCompleteness latexContentForValidation
           in if needsExpansion validation
              then
                (case cloneSendMessage e writerClone (we_expansionPrompt we validation) m of
                   (Inl err, m1) \<Rightarrow> (Inl err, m1)
                 | (Inr expansionResult, m1) \<Rightarrow>
                     (let expandedLatex = extractLatexFromResponse (r_message expansionResult)
                      in (Inr (), m1\<lparr>files := (files m1)(paperPath \<mapsto> expandedLatex)\<rparr>)))
              else (Inr (), m)))"

text \<open>
  \<^verbatim>\<open>MasterAgent.executeWritingPhase()\<close>. The result carries the message of the first
  answer, also after an expansion.
\<close>

definition executeWritingPhase ::
  "env \<Rightarrow> platform \<Rightarrow> writingEnv \<Rightarrow> masterAgent
     \<Rightarrow> (error + writingResult) \<times> masterAgent \<times> created list" where
  "executeWritingPhase e pf we m =
     (let m1 = m\<lparr>phase := ''writing''\<rparr>
      in case spawnClone e (we_now we) ''writer'' ''Write paper sections'' m1 of
           (Inl err, m2) \<Rightarrow> (Inl err, m2, [])
         | (Inr writerClone, m2) \<Rightarrow>
             (case cloneSendMessage e writerClone (paperPrompt we m2) m2 of
                (Inl err, m3) \<Rightarrow> (Inl err, m3, [])
              | (Inr paperResult, m3) \<Rightarrow>
                  (case workspace m3 of
                     None \<Rightarrow>
                       (Inl (TypeError ''Cannot read properties of null (reading 'workspacePath')''),
                        m3, [])
                   | Some wsPath \<Rightarrow>
                       (let latexContent = extractLatexFromResponse (r_message paperResult);
                            paperPath = pathJoin pf wsPath ''paper.tex'';
                            m4 = m3\<lparr>files := (files m3)(paperPath \<mapsto> latexContent)\<rparr>;
                            writingDocument =
                              we_formatDocument we (r_message paperResult) (we_timestamp we);
                            saved = saveWritingDocument pf we writingDocument m4;
                            pdfCompiled = we_pdfCompiled we
                        in case validateAndExpand e we writerClone paperPath (fst saved) of
                             (Inl err, m5) \<Rightarrow> (Inl err, m5, snd saved)
                           | (Inr u, m5) \<Rightarrow>
                               (Inr \<lparr>wr_paper = r_message paperResult,
                                     wr_pdfCompiled = pdfCompiled\<rparr>, m5, snd saved)))))"

section \<open>AgentService\<close>

text \<open>
  The service calls the orchestrator it holds. What a phase of the orchestrator does is
  an argument of the model of the service: for a state of the master agent, the outcome,
  the state after the call, and the \<^verbatim>\<open>'artifact-created'\<close> events the artifact store
  emitted on the service, the only events the master agent causes. A planning call has
  a third outcome, besides returning and throwing: it is still pending when the time box
  of five minutes ends; it is given the number of the attempt, so that attempts may
  differ. \<^verbatim>\<open>_emitModelingResults\<close> catches its own exceptions and only emits events.
\<close>

datatype 'a outcome = Returned 'a | Threw error | Pending

record orchestrator =
  o_planning ::
    "nat \<Rightarrow> string \<Rightarrow> masterAgent \<Rightarrow> planningResult outcome \<times> masterAgent \<times> created list"
  o_modeling ::
    "jsval \<Rightarrow> masterAgent \<Rightarrow> (error + modelingResult) \<times> masterAgent \<times> created list"
  o_writing :: "masterAgent \<Rightarrow> (error + writingResult) \<times> masterAgent \<times> created list"
  o_emitModelingResults :: "masterAgent \<Rightarrow> event list"

text \<open>The service: \<^verbatim>\<open>masterAgent\<close> is \<open>None\<close> until a workspace is initialized.\<close>

record agentService =
  masterAgent :: "masterAgent option"
  isRunning :: bool
  currentPhase :: string

definition newAgentService :: agentService where
  "newAgentService = \<lparr>masterAgent = None, isRunning = False, currentPhase = ''idle''\<rparr>"

text \<open>
  \<^verbatim>\<open>_executeWithTimeout\<close>: the race of the call with a timer that rejects with
  \<^verbatim>\<open>'Operation timed out'\<close>.
\<close>

definition executeWithTimeout :: "'a outcome \<Rightarrow> error + 'a" where
  "executeWithTimeout settled =
     (case settled of
        Returned r \<Rightarrow> Inr r
      | Threw err \<Rightarrow> Inl err
      | Pending \<Rightarrow> Inl (Error ''Operation timed out''))"

text \<open>The log event at the start of an attempt.\<close>

definition attemptLog :: "nat \<Rightarrow> nat \<Rightarrow> event" where
  "attemptLog retries attempt =
     (if attempt > 0
      then Log Warning (''Retry attempt '' @ dec attempt @ ''/'' @ dec retries @ ''...'')
      else Log Info ''Starting planning phase...'')"

text \<open>
  The \<^verbatim>\<open>while (attempt <= retries)\<close> loop of \<^verbatim>\<open>executePlanningPhase\<close>, from the value
  \<open>attempt\<close> of the counter and the state \<open>m\<close> of the master agent. The \<^verbatim>\<open>catch\<close> increments
  the counter and either emits \<^verbatim>\<open>'error'\<close> and rethrows, or waits and goes round again; the
  \<^verbatim>\<open>finally\<close> clears \<^verbatim>\<open>isRunning\<close> only when the attempts are used up. A loop that is left
  by its condition returns \<^verbatim>\<open>undefined\<close>, which is \<open>None\<close>.
\<close>

function planningLoop ::
  "orchestrator \<Rightarrow> string \<Rightarrow> nat \<Rightarrow> nat \<Rightarrow> masterAgent \<Rightarrow> agentService
     \<Rightarrow> (error + planningResult option) \<times> agentService \<times> event list" where
  "planningLoop orc problemStatement retries attempt m s =
     (if attempt \<le> retries
      then
        (let s1 = s\<lparr>isRunning := True, currentPhase := ''planning''\<rparr>;
             evs1 = [PhaseChange ''planning'', attemptLog retries attempt];
             call = o_planning orc attempt problemStatement m;
             m' = fst (snd call);
             evs2 = evs1 @ map ArtifactCreated (snd (snd call));
             s2 = s1\<lparr>masterAgent := Some m'\<rparr>
         in case executeWithTimeout (fst call) of
              Inr result \<Rightarrow>
                (Inr (Some result), s2,
                 evs2 @ [Log Success ''Planning phase complete'', PlanningComplete result])
            | Inl error \<Rightarrow>
                if Suc attempt > retries
                then
                  (Inl error, s2\<lparr>isRunning := False\<rparr>,
                   evs2 @ [Log Failure (''Planning failed after '' @ dec retries @ '' retries: ''
                                          @ errorMessage error),
                           ErrorEvent error])
                else
                  (let rest = planningLoop orc problemStatement retries (Suc attempt) m' s2
                   in (fst rest, fst (snd rest),
                       evs2 @ [Log Warning (''Planning attempt failed: '' @ errorMessage error)]
                         @ snd (snd rest))))
      else (Inr None, s, []))"
  by pat_completeness auto
termination
  by (relation "measure (\<lambda>(orc, ps, retries, attempt, m, s). Suc retries - attempt)") auto

declare planningLoop.simps [simp del]

text \<open>
  \<^verbatim>\<open>executePlanningPhase(problemStatement, retries = 2)\<close>; \<open>retries\<close> is a count, and \<open>None\<close>
  when the argument is left out.
\<close>

definition executePlanningPhase ::
  "orchestrator \<Rightarrow> string \<Rightarrow> nat option \<Rightarrow> agentService
     \<Rightarrow> (error + planningResult option) \<times> agentService \<times> event list" where
  "executePlanningPhase orc problemStatement retries s =
     (case masterAgent s of
        None \<Rightarrow> (Inl (Error ''Workspace not initialized''), s, [])
      | Some m \<Rightarrow> planningLoop orc problemStatement (orDefault retries 2) 0 m s)"

fun isString :: "jsval \<Rightarrow> bool" where
  "isString (JStr t) = True"
| "isString v = False"

text \<open>
  \<^verbatim>\<open>AgentService.executeModelingPhase(plan)\<close>. Both checks, and the log line that calls
  \<^verbatim>\<open>plan.substring\<close>, come before the \<^verbatim>\<open>try\<close>; the \<^verbatim>\<open>finally\<close> clears \<^verbatim>\<open>isRunning\<close> and leaves
  the phase as it is.
\<close>

definition facadeModelingPhase ::
  "orchestrator \<Rightarrow> jsval \<Rightarrow> agentService
     \<Rightarrow> (error + modelingResult) \<times> agentService \<times> event list" where
  "facadeModelingPhase orc plan s =
     (case masterAgent s of
        None \<Rightarrow> (Inl (Error ''Workspace not initialized''), s, [])
      | Some m \<Rightarrow>
          if truthy plan \<and> \<not> isString plan
          then (Inl (TypeError ''plan.substring is not a function''), s, [])
          else if \<not> truthy plan \<or> plan = JStr ''null''
          then (Inl (Error ''No plan provided. Please complete planning phase first.''), s, [])
          else
            (let s1 = s\<lparr>isRunning := True, currentPhase := ''modeling''\<rparr>;
                 evs1 = [PhaseChange ''modeling'', Log Info ''Starting modeling phase...''];
                 call = o_modeling orc plan m;
                 m' = fst (snd call);
                 evs2 = evs1 @ map ArtifactCreated (snd (snd call));
                 s2 = s1\<lparr>masterAgent := Some m'\<rparr>
             in case fst call of
                  Inr result \<Rightarrow>
                    (Inr result, s2\<lparr>isRunning := False\<rparr>,
                     evs2 @ [Log Success ''Modeling phase complete'', ModelingComplete result]
                       @ o_emitModelingResults orc m')
                | Inl error \<Rightarrow>
                    (Inl error, s2\<lparr>isRunning := False\<rparr>,
                     evs2 @ [Log Failure (''Modeling failed: '' @ errorMessage error),
                             ErrorEvent error])))"

text \<open>
  \<^verbatim>\<open>AgentService.executeWritingPhase()\<close>. The check comes before the \<^verbatim>\<open>try\<close>; the
  \<^verbatim>\<open>finally\<close> clears \<^verbatim>\<open>isRunning\<close>, sets the phase to \<^verbatim>\<open>'idle'\<close> and emits the change.
\<close>

definition facadeWritingPhase ::
  "orchestrator \<Rightarrow> agentService \<Rightarrow> (error + writingResult) \<times> agentService \<times> event list" where
  "facadeWritingPhase orc s =
     (case masterAgent s of
        None \<Rightarrow> (Inl (Error ''Workspace not initialized''), s, [])
      | Some m \<Rightarrow>
          (let s1 = s\<lparr>isRunning := True, currentPhase := ''writing''\<rparr>;
               evs1 = [PhaseChange ''writing'', Log Info ''Starting writing phase...''];
               call = o_writing orc m;
               m' = fst (snd call);
               evs2 = evs1 @ map ArtifactCreated (snd (snd call));
               s2 = s1\<lparr>masterAgent := Some m'\<rparr>;
               s3 = s2\<lparr>isRunning := False, currentPhase := ''idle''\<rparr>
           in case fst call of
                Inr result \<Rightarrow>
                  (Inr result, s3,
                   evs2 @ [Log Success ''Writing phase complete'', WritingComplete result,
                           PhaseChange ''idle''])
              | Inl error \<Rightarrow>
                  (Inl error, s3,
                   evs2 @ [Log Failure (''Writing failed: '' @ errorMessage error),
                           ErrorEvent error, PhaseChange ''idle''])))"

subsection \<open>Notions for stating the properties of the phases\<close>

text \<open>
  The path of \<^verbatim>\<open>paper.tex\<close> is neither the path the writing document is stored under nor
  the path of the index (with \<^verbatim>\<open>path.join\<close> as it is, the first is in the workspace and the
  other two are in its \<^verbatim>\<open>artifacts\<close> directory).
\<close>

definition paperPathFree :: "platform \<Rightarrow> masterAgent \<Rightarrow> string \<Rightarrow> bool" where
  "paperPathFree pf m wsPath =
     (case artifactStore m of
        None \<Rightarrow> True
      | Some store \<Rightarrow>
          pathJoin pf wsPath ''paper.tex'' \<noteq> storagePath pf store ''writing-phase-result.md''
          \<and> pathJoin pf wsPath ''paper.tex'' \<noteq> indexPath store)"

subsection \<open>Sample phases\<close>

definition ex_writingEnv :: writingEnv where
  "ex_writingEnv =
     \<lparr>we_now = 1700000000000,
      we_context = (\<lambda>store d. ''No figures.''),
      we_paperPrompt = (\<lambda>c. ''Write the paper. '' @ c),
      we_formatDocument = (\<lambda>paper ts. ts @ '' '' @ paper),
      we_timestamp = ''2023-11-14T22:13:20.000Z'',
      we_metadataTimestamp = ''2023-11-14T22:13:20.001Z'',
      we_ambient = ex_ambient 2,
      we_pdfCompiled = False,
      we_expansionPrompt = (\<lambda>v. ''Expand the paper.'')\<rparr>"

definition ex_workspace :: masterAgent where
  "ex_workspace = ex_master\<lparr>workspace := Some ''ws'', artifactStore := Some ex_store\<rparr>"

definition ex_writer :: baseAgent where
  "ex_writer =
     \<lparr>mode = ''writer'',
      provider = newProvider ClaudeProvider (clientConfigOf (primaryConfig (ex_config None))),
      conversationHistory = []\<rparr>"

definition ex_draft :: response where
  "ex_draft = ex_response\<lparr>r_message := ''Write the paper. No figures.''\<rparr>"

definition ex_expansion :: response where
  "ex_expansion =
     ex_response\<lparr>r_message :=
       ''Write the paper. No figures.Write the paper. No figures.Expand the paper.''\<rparr>"

text \<open>
  The state of the master agent after \<open>n\<close> planning calls, the attempts \<open>a\<close> to
  \<open>a + n - 1\<close>, from \<open>m\<close>.
\<close>

fun attemptsFrom ::
  "orchestrator \<Rightarrow> string \<Rightarrow> nat \<Rightarrow> nat \<Rightarrow> masterAgent \<Rightarrow> masterAgent" where
  "attemptsFrom orc ps a 0 m = m"
| "attemptsFrom orc ps a (Suc n) m =
     attemptsFrom orc ps (Suc a) n (fst (snd (o_planning orc a ps m)))"

text \<open>No planning call returns in its time box: each throws or stays pending.\<close>

definition alwaysFails :: "orchestrator \<Rightarrow> string \<Rightarrow> bool" where
  "alwaysFails orc ps = (\<forall>k m. isl (executeWithTimeout (fst (o_planning orc k ps m))))"

text \<open>The \<^verbatim>\<open>'error'\<close> events, and the \<^verbatim>\<open>'phase-change'\<close> events to \<^verbatim>\<open>'planning'\<close>.\<close>

fun isErrorEvent :: "event \<Rightarrow> bool" where
  "isErrorEvent (ErrorEvent err) = True"
| "isErrorEvent ev = False"

fun isPlanningChange :: "event \<Rightarrow> bool" where
  "isPlanningChange (PhaseChange p) = (p = ''planning'')"
| "isPlanningChange ev = False"

text \<open>
  An orchestrator whose planning calls fail, by an exception or by the time box in
  turn, and leave one more clone in the registry each time; its other phases throw.
\<close>

definition ex_orchestrator :: orchestrator where
  "ex_orchestrator =
     \<lparr>o_planning = (\<lambda>k ps m.
        (if even k then Threw (Error ''API request failed: 500'') else Pending,
         m\<lparr>clones := clones m @
              [\<lparr>c_id = ''researcher-'' @ dec k, c_agent = 0, c_mode = ''researcher'',
                c_task = ''Find relevant papers and approaches'', c_status = ''running''\<rparr>]\<rparr>,
         [])),
      o_modeling =
        (\<lambda>plan m. (Inl (Error ''API request failed: 500''), m\<lparr>phase := ''modeling''\<rparr>, [])),
      o_writing =
        (\<lambda>m. (Inl (Error ''API request failed: 500''), m\<lparr>phase := ''writing''\<rparr>, [])),
      o_emitModelingResults = (\<lambda>m. [])\<rparr>"

definition ex_modelingEnv :: modelingEnv where
  "ex_modelingEnv =
     \<lparr>me_now = 1700000000000,
      me_dataContext = (\<lambda>m. Inr []),
      me_prompt = (\<lambda>plan dataContext. ''Implement this approved plan: '' @ plan @ dataContext),
      me_rest = (\<lambda>plan modelResult m. (Inr (), m, []))\<rparr>"

definition ex_service :: agentService where
  "ex_service = \<lparr>masterAgent = Some ex_master, isRunning = False, currentPhase = ''planning''\<rparr>"

text \<open>
  A paper of 6000 words: a heading, then the given number of figure blocks, then plain
  words.
\<close>

definition ex_paper :: "nat \<Rightarrow> string" where
  "ex_paper figures =
     BS # ''section{Experimental Validation}''
     @ concat (replicate figures ('' '' @ BS # ''begin{figure}''))
     @ concat (replicate (5998 - figures) '' word'')"

chapter \<open>Properties\<close>

section \<open>Provider resolution\<close>

lemma toLowerCase_letters:
  "toLowerCase ''ABCDEFGHIJKLMNOPQRSTUVWXYZ'' = ''abcdefghijklmnopqrstuvwxyz''"
  "toLowerCase ''abcdefghijklmnopqrstuvwxyz0123456789-_ '' =
     ''abcdefghijklmnopqrstuvwxyz0123456789-_ ''"
  by (simp_all add: toLowerCase_def)

lemma createProvider_string:
  "createProvider (pc\<lparr>pc_provider := JStr p\<rparr>) =
     (if toLowerCase p \<in> {''claude'', ''anthropic''}
      then Inr (newProvider ClaudeProvider (clientConfigOf pc))
      else if toLowerCase p \<in> {''gpt'', ''openai''}
      then Inr (newProvider OpenAIProvider (clientConfigOf pc))
      else if toLowerCase p \<in> {''gemini'', ''google''}
      then Inr (newProvider GeminiProvider (clientConfigOf pc))
      else Inl (Error (''Unsupported LLM provider: '' @ p)))"
  by (simp add: createProvider_def clientConfigOf_def Let_def)

lemma createProvider_not_string:
  "\<forall>s. pc_provider pc \<noteq> JStr s \<Longrightarrow> \<exists>msg. createProvider pc = Inl (TypeError msg)"
  by (cases "pc_provider pc") (simp_all add: createProvider_def)

text \<open>
  \<^bold>\<open>C7\<close> (provider resolution). For every provider identifier string \<open>p\<close>,
  \<^verbatim>\<open>ProviderFactory.createProvider\<close> looks at the lower-cased identifier only: \<open>claude\<close> and
  \<open>anthropic\<close> give the Claude client, \<open>gpt\<close> and \<open>openai\<close> the OpenAI client, \<open>gemini\<close>
  and \<open>google\<close> the Gemini client, and every other identifier makes the construction
  fail with the error \<open>Unsupported LLM provider: p\<close>. Two identifiers that differ in case
  only resolve alike.
\<close>

theorem provider_resolution:
  "map_sum id p_class (createProvider (pc\<lparr>pc_provider := JStr p\<rparr>)) =
     (if toLowerCase p \<in> {''claude'', ''anthropic''} then Inr ClaudeProvider
      else if toLowerCase p \<in> {''gpt'', ''openai''} then Inr OpenAIProvider
      else if toLowerCase p \<in> {''gemini'', ''google''} then Inr GeminiProvider
      else Inl (Error (''Unsupported LLM provider: '' @ p)))
   \<and> (toLowerCase p = toLowerCase q \<longrightarrow>
        isl (createProvider (pc\<lparr>pc_provider := JStr p\<rparr>)) =
          isl (createProvider (pc\<lparr>pc_provider := JStr q\<rparr>))
        \<and> map_sum (\<lambda>_. ()) p_class (createProvider (pc\<lparr>pc_provider := JStr p\<rparr>)) =
          map_sum (\<lambda>_. ()) p_class (createProvider (pc\<lparr>pc_provider := JStr q\<rparr>)))"
  by (simp add: createProvider_string newProvider_def)

theorem provider_resolution_witness:
  "toLowerCase ''Claude'' = toLowerCase ''CLAUDE''
   \<and> map_sum id p_class (createProvider (ex_pc\<lparr>pc_provider := JStr ''Claude''\<rparr>)) =
       Inr ClaudeProvider
   \<and> map_sum (\<lambda>_. ()) p_class (createProvider (ex_pc\<lparr>pc_provider := JStr ''CLAUDE''\<rparr>)) =
       map_sum (\<lambda>_. ()) p_class (createProvider (ex_pc\<lparr>pc_provider := JStr ''Claude''\<rparr>))"
  using provider_resolution [where pc = ex_pc and p = "''Claude''" and q = "''CLAUDE''"]
  by (simp add: toLowerCase_def)

section \<open>Configuration precedence\<close>

text \<open>
  The claim as the specification states it fails twice: an override without a provider
  is ignored as a whole, its model included; and the token limit of an override is never
  read.
\<close>

theorem override_precedence_counterexample:
  "pc_model (selectedConfig (ex_config (Some ex_override_model)) ''writer'')
     \<noteq> pc_model (spec_effectiveConfig (ex_config (Some ex_override_model)) ex_override_model)
   \<and> pc_maxTokens (selectedConfig (ex_config (Some ex_override_tokens)) ''writer'')
     \<noteq> pc_maxTokens (spec_effectiveConfig (ex_config (Some ex_override_tokens)) ex_override_tokens)"
  by (simp add: selectedConfig_def spec_effectiveConfig_def ex_config_def ex_override_model_def
      ex_override_tokens_def overrideConfig_def primaryConfig_def jsOr_def)

text \<open>
  \<^bold>\<open>C2\<close> (configuration precedence), as amended. The agent of a role passes
  \<open>selectedConfig\<close> to the factory. When the role has an override whose provider is set,
  the provider, the key, the base URL and the model are, each by itself, the override's
  where it is set and the primary one otherwise, while the token limit and the
  temperature are always the primary ones. When the override sets no provider, the
  primary configuration is used as a whole.
\<close>

theorem override_precedence:
  assumes "llm_task_overrides cfg md = Some ov"
  shows "initializeProvider cfg md = createProvider (selectedConfig cfg md)
    \<and> (if truthy (to_provider ov)
       then pc_provider (selectedConfig cfg md) = pc_provider (spec_effectiveConfig cfg ov)
          \<and> pc_apiKey (selectedConfig cfg md) = pc_apiKey (spec_effectiveConfig cfg ov)
          \<and> pc_baseUrl (selectedConfig cfg md) = pc_baseUrl (spec_effectiveConfig cfg ov)
          \<and> pc_model (selectedConfig cfg md) = pc_model (spec_effectiveConfig cfg ov)
          \<and> pc_maxTokens (selectedConfig cfg md) = llm_max_tokens cfg
          \<and> pc_temperature (selectedConfig cfg md) = llm_temperature cfg
       else selectedConfig cfg md = primaryConfig cfg)"
  using assms
  by (simp add: initializeProvider_def selectedConfig_def spec_effectiveConfig_def
      overrideConfig_def primaryConfig_def)

theorem override_precedence_witness:
  "llm_task_overrides (ex_config (Some ex_override_tokens)) ''writer'' = Some ex_override_tokens
   \<and> truthy (to_provider ex_override_tokens)
   \<and> pc_provider (selectedConfig (ex_config (Some ex_override_tokens)) ''writer'') = JStr ''openai''
   \<and> pc_apiKey (selectedConfig (ex_config (Some ex_override_tokens)) ''writer'') = JStr ''sk-2''
   \<and> pc_model (selectedConfig (ex_config (Some ex_override_tokens)) ''writer'') =
       JStr ''claude-sonnet-4-5''
   \<and> pc_maxTokens (selectedConfig (ex_config (Some ex_override_tokens)) ''writer'') = JNum 8192"
  using override_precedence [of "ex_config (Some ex_override_tokens)" "''writer''" ex_override_tokens]
  by (simp add: ex_config_def ex_override_tokens_def spec_effectiveConfig_def jsOr_def)

section \<open>The conversation history of an agent\<close>

lemma getSystemPrompt_history [simp]:
  "getSystemPrompt e (a\<lparr>conversationHistory := h\<rparr>) = getSystemPrompt e a"
  by (simp add: getSystemPrompt_def)

lemma sendMessage_cases:
  "sendMessage e a t options =
     (case providerCall e a t options of
        Inl err \<Rightarrow>
          (Inl err,
           a\<lparr>conversationHistory := conversationHistory a @ [\<lparr>m_role = User, m_content = t\<rparr>]\<rparr>)
      | Inr r \<Rightarrow>
          (Inr r,
           a\<lparr>conversationHistory := conversationHistory a @
               [\<lparr>m_role = User, m_content = t\<rparr>,
                \<lparr>m_role = Assistant, m_content = r_message r\<rparr>]\<rparr>))"
  by (simp add: sendMessage_def providerCall_def Let_def split: sum.splits)

text \<open>
  \<^bold>\<open>C9\<close> (\<^verbatim>\<open>sendMessage\<close> is not atomic on error). When the provider call throws,
  \<^verbatim>\<open>sendMessage\<close> rethrows the error and the user message pushed before the call stays
  in the history, which has grown by exactly one message; when the provider answers,
  the history has grown by two, the user message and the assistant's reply.
\<close>

theorem sendMessage_not_atomic:
  "(providerCall e a t options = Inl err \<longrightarrow>
      fst (sendMessage e a t options) = Inl err
      \<and> conversationHistory (snd (sendMessage e a t options)) =
          conversationHistory a @ [\<lparr>m_role = User, m_content = t\<rparr>]
      \<and> length (conversationHistory (snd (sendMessage e a t options))) =
          length (conversationHistory a) + 1)
   \<and> (providerCall e a t options = Inr r \<longrightarrow>
      fst (sendMessage e a t options) = Inr r
      \<and> conversationHistory (snd (sendMessage e a t options)) =
          conversationHistory a @ [\<lparr>m_role = User, m_content = t\<rparr>,
                                   \<lparr>m_role = Assistant, m_content = r_message r\<rparr>]
      \<and> length (conversationHistory (snd (sendMessage e a t options))) =
          length (conversationHistory a) + 2)"
  by (simp add: sendMessage_cases)

theorem sendMessage_not_atomic_witness:
  "providerCall (ex_env (Inl (Error ''API request failed: 500''))) ex_agent ''hello'' noOptions =
     Inl (Error ''API request failed: 500'')
   \<and> fst (sendMessage (ex_env (Inl (Error ''API request failed: 500''))) ex_agent ''hello'' noOptions) =
       Inl (Error ''API request failed: 500'')
   \<and> conversationHistory
       (snd (sendMessage (ex_env (Inl (Error ''API request failed: 500''))) ex_agent ''hello'' noOptions)) =
       [\<lparr>m_role = User, m_content = ''hello''\<rparr>]
   \<and> providerCall (ex_env (Inr ex_response)) ex_agent ''hello'' noOptions = Inr ex_response
   \<and> conversationHistory (snd (sendMessage (ex_env (Inr ex_response)) ex_agent ''hello'' noOptions)) =
       [\<lparr>m_role = User, m_content = ''hello''\<rparr>, \<lparr>m_role = Assistant, m_content = ''ok''\<rparr>]"
  using sendMessage_not_atomic [of "ex_env (Inl (Error ''API request failed: 500''))" ex_agent
      "''hello''" noOptions "Error ''API request failed: 500''" ex_response]
    sendMessage_not_atomic [of "ex_env (Inr ex_response)" ex_agent
      "''hello''" noOptions "Error ''x''" ex_response]
  by (simp add: providerCall_def ex_env_def ex_agent_def ex_response_def)

section \<open>The artifact store\<close>

lemma findIndex_None: "findIndex P xs = None \<longleftrightarrow> (\<forall>x\<in>set xs. \<not> P x)"
  by (induction xs) auto

lemma findIndex_Some:
  "findIndex P xs = Some i \<Longrightarrow> i < length xs \<and> P (xs ! i) \<and> (\<forall>j<i. \<not> P (xs ! j))"
proof (induction xs arbitrary: i)
  case Nil then show ?case by simp
next
  case (Cons x xs)
  show ?case
  proof (cases "P x")
    case True with Cons.prems show ?thesis by simp
  next
    case False
    with Cons.prems obtain k where k: "findIndex P xs = Some k" "i = Suc k" by auto
    from Cons.IH[OF k(1)] False k(2) show ?thesis
      by (auto simp: less_Suc_eq_0_disj)
  qed
qed

lemma find_findIndex:
  "find P xs = (case findIndex P xs of None \<Rightarrow> None | Some i \<Rightarrow> Some (xs ! i))"
  by (induction xs) (auto split: option.splits)

lemma find_update_hit:
  "findIndex P xs = Some i \<Longrightarrow> P y \<Longrightarrow> find P (xs[i := y]) = Some y"
proof (induction xs arbitrary: i)
  case Nil then show ?case by simp
next
  case (Cons x xs)
  then show ?case by (cases "P x") auto
qed

lemma find_update_other:
  "findIndex Q xs = Some i \<Longrightarrow> \<not> P y \<Longrightarrow> \<not> P (xs ! i) \<Longrightarrow> find P (xs[i := y]) = find P xs"
proof (induction xs arbitrary: i)
  case Nil then show ?case by simp
next
  case (Cons x xs)
  then show ?case by (cases "Q x") auto
qed

lemma find_append_hit:
  "findIndex P xs = None \<Longrightarrow> P y \<Longrightarrow> find P (xs @ [y]) = Some y"
  by (induction xs) (auto split: if_splits)

lemma find_append_other: "\<not> P y \<Longrightarrow> find P (xs @ [y]) = find P xs"
  by (induction xs) auto


lemma register_same_path:
  assumes "register pf amb args (st, d) = (entry, st', d')"
  shows "lookupPath (g_path args) st' = Some entry"
    and "a_path entry = g_path args"
    and "a_version entry = recordedVersion (g_path args) st + 1"
    and "a_id entry = (case lookupPath (g_path args) st of None \<Rightarrow> generateId amb | Some a \<Rightarrow> a_id a)"
    and "artifactsPath st' = artifactsPath st"
    and "eventEmitter st' = eventEmitter st"
proof -
  let ?P = "\<lambda>a. a_path a = g_path args"
  have old: "lookupPath (g_path args) st =
      (case findIndex ?P (artifacts st) of None \<Rightarrow> None | Some i \<Rightarrow> Some (artifacts st ! i))"
    by (simp add: lookupPath_def find_findIndex)
  show "lookupPath (g_path args) st' = Some entry"
  proof (cases "findIndex ?P (artifacts st)")
    case None
    with assms show ?thesis
      by (auto simp: register_def Let_def lookupPath_def intro!: find_append_hit)
  next
    case (Some i)
    with assms show ?thesis
      by (auto simp: register_def Let_def lookupPath_def intro!: find_update_hit)
  qed
  show "a_path entry = g_path args"
    using assms by (auto simp: register_def Let_def split: option.splits)
  show "a_version entry = recordedVersion (g_path args) st + 1"
    using assms by (auto simp: register_def Let_def recordedVersion_def old split: option.splits)
  show "a_id entry = (case lookupPath (g_path args) st of None \<Rightarrow> generateId amb | Some a \<Rightarrow> a_id a)"
    using assms by (auto simp: register_def Let_def old split: option.splits)
  show "artifactsPath st' = artifactsPath st"
    using assms by (auto simp: register_def Let_def split: option.splits)
  show "eventEmitter st' = eventEmitter st"
    using assms by (auto simp: register_def Let_def split: option.splits)
qed

lemma register_other_path:
  assumes "register pf amb args (st, d) = (entry, st', d')" and "p \<noteq> g_path args"
  shows "lookupPath p st' = lookupPath p st"
proof (cases "findIndex (\<lambda>a. a_path a = g_path args) (artifacts st)")
  case None
  with assms show ?thesis
    by (auto simp: register_def Let_def lookupPath_def find_append_other)
next
  case (Some i)
  from findIndex_Some[OF Some] have "a_path (artifacts st ! i) = g_path args" by simp
  with assms Some show ?thesis
    by (auto simp: register_def Let_def lookupPath_def intro!: find_update_other[OF Some])
qed

lemma saveArtifact_same_name:
  assumes "saveArtifact pf amb args (st, d) = (entry, (st', d'), evs)"
  shows "lookupPath (storagePath pf st (s_name args)) st' = Some entry"
    and "a_version entry = recordedVersion (storagePath pf st (s_name args)) st + 1"
    and "a_id entry = (case lookupPath (storagePath pf st (s_name args)) st of
                         None \<Rightarrow> generateId amb | Some a \<Rightarrow> a_id a)"
    and "artifactsPath st' = artifactsPath st"
proof -
  let ?args = "\<lparr>g_name = s_name args, g_type = s_type args,
                 g_path = pathJoin pf (artifactsPath st) (s_name args),
                 g_description = Some (orDefault (s_description args) []),
                 g_generatedBy = Some (orDefault (s_generatedBy args) ''unknown''),
                 g_metadata = Some (orDefault (s_metadata args) [])\<rparr>"
  from assms have r: "register pf amb ?args (st, d(pathJoin pf (artifactsPath st) (s_name args) \<mapsto> s_content args)) = (entry, st', d')"
    by (simp add: saveArtifact_def Let_def prod_eq_iff)
  from register_same_path[OF r]
  show "lookupPath (storagePath pf st (s_name args)) st' = Some entry"
    and "a_version entry = recordedVersion (storagePath pf st (s_name args)) st + 1"
    and "a_id entry = (case lookupPath (storagePath pf st (s_name args)) st of
                         None \<Rightarrow> generateId amb | Some a \<Rightarrow> a_id a)"
    and "artifactsPath st' = artifactsPath st"
    by (simp_all add: storagePath_def)
qed

lemma saveArtifact_other_name:
  assumes "saveArtifact pf amb args (st, d) = (entry, (st', d'), evs)"
    and "p \<noteq> storagePath pf st (s_name args)"
  shows "lookupPath p st' = lookupPath p st"
proof -
  let ?args = "\<lparr>g_name = s_name args, g_type = s_type args,
                 g_path = pathJoin pf (artifactsPath st) (s_name args),
                 g_description = Some (orDefault (s_description args) []),
                 g_generatedBy = Some (orDefault (s_generatedBy args) ''unknown''),
                 g_metadata = Some (orDefault (s_metadata args) [])\<rparr>"
  from assms have r: "register pf amb ?args (st, d(pathJoin pf (artifactsPath st) (s_name args) \<mapsto> s_content args)) = (entry, st', d')"
    by (simp add: saveArtifact_def Let_def prod_eq_iff)
  from register_other_path[OF r, of p] assms(2) show ?thesis
    by (simp add: storagePath_def)
qed

lemma saveArtifacts_other_names:
  assumes "saveArtifacts pf cs (st, d) = (rs, (st', d'))"
    and "\<forall>c\<in>set cs. storagePath pf st (s_name (snd c)) \<noteq> p"
  shows "lookupPath p st' = lookupPath p st \<and> artifactsPath st' = artifactsPath st"
  using assms
proof (induction cs arbitrary: st d rs)
  case Nil then show ?case by simp
next
  case (Cons c cs)
  obtain e st1 d1 evs where s1: "saveArtifact pf (fst c) (snd c) (st, d) = (e, (st1, d1), evs)"
    by (metis prod.exhaust)
  obtain rs1 where s2: "saveArtifacts pf cs (st1, d1) = (rs1, (st', d'))"
    using Cons.prems(1) s1 by (auto simp: Let_def prod_eq_iff)
  have ap: "artifactsPath st1 = artifactsPath st" using saveArtifact_same_name(4)[OF s1] .
  have l1: "lookupPath p st1 = lookupPath p st"
    using saveArtifact_other_name[OF s1, of p] Cons.prems(2) by auto
  have "\<forall>c\<in>set cs. storagePath pf st1 (s_name (snd c)) \<noteq> p"
    using Cons.prems(2) ap by (simp add: storagePath_def)
  from Cons.IH[OF s2 this] l1 ap show ?case by simp
qed

lemma saveArtifacts_same_name:
  assumes "saveArtifacts pf cs (st, d) = (rs, (st', d'))"
    and "\<forall>c\<in>set cs. s_name (snd c) = name"
  shows "length rs = length cs
     \<and> (\<forall>k<length cs. a_version (rs ! k) = recordedVersion (storagePath pf st name) st + 1 + k
            \<and> a_id (rs ! k) = a_id (rs ! 0))"
  using assms
proof (induction cs arbitrary: st d rs)
  case Nil then show ?case by simp
next
  case (Cons c cs)
  obtain e st1 d1 evs where s1: "saveArtifact pf (fst c) (snd c) (st, d) = (e, (st1, d1), evs)"
    by (metis prod.exhaust)
  obtain rs1 where s2: "saveArtifacts pf cs (st1, d1) = (rs1, (st', d'))" and rs: "rs = e # rs1"
    using Cons.prems(1) s1 by (auto simp: Let_def prod_eq_iff)
  have nm: "s_name (snd c) = name" using Cons.prems(2) by simp
  note f = saveArtifact_same_name[OF s1, unfolded nm]
  have sp: "storagePath pf st1 name = storagePath pf st name" using f(4) by (simp add: storagePath_def)
  have rv: "recordedVersion (storagePath pf st1 name) st1 = a_version e"
    using f(1) by (simp add: sp recordedVersion_def)
  have ih: "length rs1 = length cs
     \<and> (\<forall>k<length cs. a_version (rs1 ! k) = a_version e + 1 + k \<and> a_id (rs1 ! k) = a_id (rs1 ! 0))"
    using Cons.IH[OF s2] Cons.prems(2) rv by simp
  have id0: "cs \<noteq> [] \<Longrightarrow> a_id (rs1 ! 0) = a_id e"
  proof -
    assume ne: "cs \<noteq> []"
    then obtain c' cs' where cs: "cs = c' # cs'" by (cases cs) auto
    obtain e' st2 d2 evs' where s3: "saveArtifact pf (fst c') (snd c') (st1, d1) = (e', (st2, d2), evs')"
      by (metis prod.exhaust)
    have "rs1 ! 0 = e'" using s2 s3 cs by (auto simp: Let_def prod_eq_iff)
    moreover have "s_name (snd c') = name" using Cons.prems(2) cs by simp
    ultimately show ?thesis
      using saveArtifact_same_name(3)[OF s3] f(1) by (simp add: sp)
  qed
  show ?case
  proof (intro conjI allI impI)
    show "length rs = length (c # cs)" using ih rs by simp
  next
    fix k assume k: "k < length (c # cs)"
    show "a_version (rs ! k) = recordedVersion (storagePath pf st name) st + 1 + k"
      using k ih f(2) rs by (cases k) auto
  next
    fix k assume k: "k < length (c # cs)"
    show "a_id (rs ! k) = a_id (rs ! 0)"
    proof (cases k)
      case 0 then show ?thesis by simp
    next
      case (Suc j)
      then have "j < length cs" using k by simp
      then have "cs \<noteq> []" by auto
      with ih id0 Suc \<open>j < length cs\<close> rs show ?thesis by simp
    qed
  qed
qed


text \<open>
  \<^bold>\<open>C1\<close> (versioning monotonicity). \<^verbatim>\<open>register\<close> replaces the first entry of the index
  with the same path by an entry with that entry's id and its version plus one, and
  otherwise pushes an entry with version 1 and the freshly generated id. Consequently,
  in every sequence of \<^verbatim>\<open>saveArtifact\<close> calls that reuse one name, from any store, the
  versions returned go up by one each time, starting one above the version recorded
  before, and every call returns the same id. The same holds for two saves of one name
  with any saves of other paths in between.
\<close>

theorem artifact_versioning:
  "(register pf amb args (st, d) = (entry, st', d') \<longrightarrow>
      (case findIndex (\<lambda>a. a_path a = g_path args) (artifacts st) of
         Some i \<Rightarrow> artifacts st' = (artifacts st)[i := entry]
                  \<and> a_version entry = a_version (artifacts st ! i) + 1
                  \<and> a_id entry = a_id (artifacts st ! i)
       | None \<Rightarrow> artifacts st' = artifacts st @ [entry]
                \<and> a_version entry = 1 \<and> a_id entry = generateId amb))
   \<and> (saveArtifacts pf cs (st, d) = (rs, sd') \<and> (\<forall>c\<in>set cs. s_name (snd c) = name) \<longrightarrow>
        length rs = length cs
        \<and> (\<forall>k<length cs.
              a_version (rs ! k) = recordedVersion (storagePath pf st name) st + 1 + k
              \<and> a_id (rs ! k) = a_id (rs ! 0)))
   \<and> (saveArtifact pf amb1 args1 (st, d) = (e1, sd1, evs1)
        \<and> saveArtifacts pf others sd1 = (rs', sd2)
        \<and> (\<forall>c\<in>set others. storagePath pf st (s_name (snd c)) \<noteq> storagePath pf st (s_name args1))
        \<and> saveArtifact pf amb2 args2 sd2 = (e2, sd3, evs2)
        \<and> s_name args2 = s_name args1 \<longrightarrow>
        a_version e2 = a_version e1 + 1 \<and> a_id e2 = a_id e1)"
proof (intro conjI impI)
  assume "register pf amb args (st, d) = (entry, st', d')"
  then show "case findIndex (\<lambda>a. a_path a = g_path args) (artifacts st) of
         Some i \<Rightarrow> artifacts st' = (artifacts st)[i := entry]
                  \<and> a_version entry = a_version (artifacts st ! i) + 1
                  \<and> a_id entry = a_id (artifacts st ! i)
       | None \<Rightarrow> artifacts st' = artifacts st @ [entry]
                \<and> a_version entry = 1 \<and> a_id entry = generateId amb"
    by (auto simp: register_def Let_def split: option.splits)
next
  assume a: "saveArtifacts pf cs (st, d) = (rs, sd') \<and> (\<forall>c\<in>set cs. s_name (snd c) = name)"
  obtain st2 d2 where "sd' = (st2, d2)" by (cases sd')
  with a saveArtifacts_same_name[of pf cs st d rs st2 d2 name]
  show "length rs = length cs" 
    and "\<forall>k<length cs.
              a_version (rs ! k) = recordedVersion (storagePath pf st name) st + 1 + k
              \<and> a_id (rs ! k) = a_id (rs ! 0)"
    by simp_all
next
  assume a: "saveArtifact pf amb1 args1 (st, d) = (e1, sd1, evs1)
        \<and> saveArtifacts pf others sd1 = (rs', sd2)
        \<and> (\<forall>c\<in>set others. storagePath pf st (s_name (snd c)) \<noteq> storagePath pf st (s_name args1))
        \<and> saveArtifact pf amb2 args2 sd2 = (e2, sd3, evs2)
        \<and> s_name args2 = s_name args1"
  obtain st1 d1 where sd1: "sd1 = (st1, d1)" by (cases sd1)
  obtain st2 d2 where sd2: "sd2 = (st2, d2)" by (cases sd2)
  obtain st3 d3 where sd3: "sd3 = (st3, d3)" by (cases sd3)
  let ?p = "storagePath pf st (s_name args1)"
  note f = saveArtifact_same_name[OF a[THEN conjunct1, unfolded sd1]]
  have ap1: "storagePath pf st1 = storagePath pf st" using f(4) by (simp add: storagePath_def fun_eq_iff)
  have "\<forall>c\<in>set others. storagePath pf st1 (s_name (snd c)) \<noteq> ?p" using a ap1 by simp
  from saveArtifacts_other_names[OF _ this, where rs = rs' and st' = st2 and d' = d2 and d = d1] a sd1 sd2
  have l2: "lookupPath ?p st2 = Some e1" and ap2: "artifactsPath st2 = artifactsPath st"
    using f(1) f(4) by simp_all
  have s2: "saveArtifact pf amb2 args2 (st2, d2) = (e2, (st3, d3), evs2)" using a sd2 sd3 by simp
  have p2: "storagePath pf st2 (s_name args2) = ?p" using a ap2 by (simp add: storagePath_def)
  from saveArtifact_same_name(2,3)[OF s2] l2
  show "a_version e2 = a_version e1 + 1" and "a_id e2 = a_id e1"
    by (simp_all add: p2 recordedVersion_def)
qed

lemmas ex_store_defs = ex_calls_def ex_save_def ex_platform_def ex_store_def ex_ambient_def
  saveArtifact_def register_def Let_def orDefault_def saveIndex_def

theorem artifact_versioning_witness:
  "map (\<lambda>c. s_name (snd c)) ex_calls = [''model.py'', ''model.py'']
   \<and> map a_version (fst (saveArtifacts ex_platform ex_calls (ex_store, Map.empty))) = [1, 2]
   \<and> a_id (fst (saveArtifacts ex_platform ex_calls (ex_store, Map.empty)) ! 1) =
       a_id (fst (saveArtifacts ex_platform ex_calls (ex_store, Map.empty)) ! 0)
   \<and> map a_name (artifacts (fst (snd (saveArtifacts ex_platform ex_calls (ex_store, Map.empty))))) = [''model.py'']
   \<and> snd (snd (saveArtifacts ex_platform ex_calls (ex_store, Map.empty))) ''ws/artifacts/model.py'' = Some ''v2''"
proof -
  let ?r = "saveArtifacts ex_platform ex_calls (ex_store, Map.empty)"
  have n: "map (\<lambda>c. s_name (snd c)) ex_calls = [''model.py'', ''model.py'']"
    by (simp add: ex_calls_def ex_save_def)
  have len: "1 < length ex_calls" by (simp add: ex_calls_def)
  have "length (fst ?r) = length ex_calls
        \<and> (\<forall>k<length ex_calls.
              a_version (fst ?r ! k) =
                recordedVersion (storagePath ex_platform ex_store ''model.py'') ex_store + 1 + k
              \<and> a_id (fst ?r ! k) = a_id (fst ?r ! 0))"
    by (rule artifact_versioning [where pf = ex_platform and cs = ex_calls and st = ex_store
          and d = Map.empty and rs = "fst ?r" and sd' = "snd ?r" and name = "''model.py''",
          THEN conjunct2, THEN conjunct1, THEN mp]) (simp add: ex_calls_def ex_save_def)
  then have i1: "a_id (fst ?r ! 1) = a_id (fst ?r ! 0)" using len by blast
  have m: "map a_version (fst ?r) = [1, 2]"
    by (simp add: ex_store_defs)
  have a: "map a_name (artifacts (fst (snd ?r))) = [''model.py'']"
    by (simp add: ex_store_defs)
  have c: "snd (snd ?r) ''ws/artifacts/model.py'' = Some ''v2''"
    by (simp add: ex_store_defs)
  show ?thesis by (intro conjI n m i1 a c)
qed

section \<open>Fan-out and fan-in\<close>

lemma sendMessage_halves:
  "sendMessage e a t options =
     (case providerCall e a t options of
        Inl err \<Rightarrow> (Inl err, pushUser a t)
      | Inr r \<Rightarrow> (Inr r, pushAssistant (pushUser a t) r))"
  by (simp add: sendMessage_cases pushUser_def pushAssistant_def split: sum.splits)

lemma fulfilled_simps [simp]: "fulfilled (Inl e) = False" "fulfilled (Inr v) = True"
  by (simp_all add: fulfilled_def)

lemma startTask_spawnable:
  assumes "fulfilled (newBaseAgent (config e) (t_mode (k_task k)))"
  shows "startTask e k m =
           (Inr \<lparr>f_agent = length (agents m), f_outcome = taskOutcome e k\<rparr>,
            m\<lparr>agents := agents m @ [pushUser (freshAgent e (k_task k)) (t_message (k_task k))],
              clones := clones m @
                [\<lparr>c_id = t_mode (k_task k) @ ''-'' @ dec (k_now k), c_agent = length (agents m),
                  c_mode = t_mode (k_task k), c_task = t_task (k_task k),
                  c_status = ''running''\<rparr>]\<rparr>)"
proof -
  from assms obtain a where a: "newBaseAgent (config e) (t_mode (k_task k)) = Inr a"
    by (cases "newBaseAgent (config e) (t_mode (k_task k))") auto
  then show ?thesis
    by (simp add: startTask_def spawnClone_def taskOutcome_def freshAgent_def)
qed

lemma startAll_spawnable:
  assumes "spawnable e tasks"
  shows "startAll e tasks m =
           (map (handleAt e (length (agents m)) tasks) [0..<length tasks],
            settledState e m tasks {})"
  using assms
proof (induction tasks arbitrary: m)
  case Nil
  then show ?case by (simp add: settledState_def)
next
  case (Cons nt tasks)
  let ?m1 = "m\<lparr>agents := agents m @ [pushUser (freshAgent e (k_task nt)) (t_message (k_task nt))],
              clones := clones m @
                [\<lparr>c_id = t_mode (k_task nt) @ ''-'' @ dec (k_now nt), c_agent = length (agents m),
                  c_mode = t_mode (k_task nt), c_task = t_task (k_task nt), c_status = ''running''\<rparr>]\<rparr>"
  from Cons.prems have sp: "fulfilled (newBaseAgent (config e) (t_mode (k_task nt)))" "spawnable e tasks"
    by (simp_all add: spawnable_def)
  have st: "startTask e nt m =
      (Inr \<lparr>f_agent = length (agents m), f_outcome = taskOutcome e nt\<rparr>, ?m1)"
    by (rule startTask_spawnable[OF sp(1)])
  have ih: "startAll e tasks ?m1 =
      (map (handleAt e (Suc (length (agents m))) tasks) [0..<length tasks], settledState e ?m1 tasks {})"
    using Cons.IH[OF sp(2), of ?m1] by simp
  have upt: "[0..<length (nt # tasks)] = 0 # map Suc [0..<length tasks]"
    by (simp add: upt_conv_Cons map_Suc_upt del: upt_Suc)
  have h: "map (handleAt e (length (agents m)) (nt # tasks)) [0..<length (nt # tasks)] =
      Inr \<lparr>f_agent = length (agents m), f_outcome = taskOutcome e nt\<rparr> #
      map (handleAt e (Suc (length (agents m))) tasks) [0..<length tasks]"
    unfolding upt by (simp add: handleAt_def comp_def)
  have s: "settledState e ?m1 tasks {} = settledState e m (nt # tasks) {}"
    unfolding settledState_def upt
    by (simp add: comp_def cloneEntryAt_def agentAt_def Let_def)
  have "startAll e (nt # tasks) m =
      (fst (startTask e nt m) # fst (startAll e tasks (snd (startTask e nt m))),
       snd (startAll e tasks (snd (startTask e nt m))))"
    by (simp add: Let_def)
  also have "\<dots> = (Inr \<lparr>f_agent = length (agents m), f_outcome = taskOutcome e nt\<rparr> #
      map (handleAt e (Suc (length (agents m))) tasks) [0..<length tasks], settledState e ?m1 tasks {})"
    by (simp only: st ih fst_conv snd_conv)
  also have "\<dots> = (map (handleAt e (length (agents m)) (nt # tasks)) [0..<length (nt # tasks)],
      settledState e m (nt # tasks) {})"
    by (simp only: h s)
  finally show ?case .
qed

lemma findIndex_SomeI:
  "i < length xs \<Longrightarrow> P (xs ! i) \<Longrightarrow> \<forall>j<i. \<not> P (xs ! j) \<Longrightarrow> findIndex P xs = Some i"
proof (induction xs arbitrary: i)
  case Nil then show ?case by simp
next
  case (Cons x xs)
  show ?case
  proof (cases i)
    case 0 with Cons.prems show ?thesis by simp
  next
    case (Suc k)
    with Cons.prems have "\<not> P x" by auto
    moreover have "findIndex P xs = Some k"
      using Cons.prems Suc by (intro Cons.IH) auto
    ultimately show ?thesis using Suc by simp
  qed
qed

lemma map_upt_update:
  "i < n \<Longrightarrow> (map f [0..<n])[i := v] = map (f(i := v)) [0..<n]"
  by (rule nth_equalityI) (auto simp: nth_list_update)

lemma findIndex_spawned:
  assumes "registryOk m" and "i < length tasks"
  shows "findIndex (\<lambda>c. c_agent c = length (agents m) + i)
           (clones m @ map (cloneEntryAt e (length (agents m)) tasks S) [0..<length tasks]) =
         Some (length (clones m) + i)"
proof (rule findIndex_SomeI)
  show "length (clones m) + i <
      length (clones m @ map (cloneEntryAt e (length (agents m)) tasks S) [0..<length tasks])"
    using assms(2) by simp
  show "c_agent ((clones m @ map (cloneEntryAt e (length (agents m)) tasks S) [0..<length tasks]) !
      (length (clones m) + i)) = length (agents m) + i"
    using assms(2) by (simp add: nth_append cloneEntryAt_def)
  show "\<forall>j<length (clones m) + i.
      c_agent ((clones m @ map (cloneEntryAt e (length (agents m)) tasks S) [0..<length tasks]) ! j)
        \<noteq> length (agents m) + i"
  proof (intro allI impI)
    fix j assume j: "j < length (clones m) + i"
    show "c_agent ((clones m @ map (cloneEntryAt e (length (agents m)) tasks S) [0..<length tasks]) ! j)
        \<noteq> length (agents m) + i"
    proof (cases "j < length (clones m)")
      case True
      with assms(1) have "c_agent (clones m ! j) < length (agents m)"
        by (simp add: registryOk_def list_all_length)
      with True show ?thesis by (simp add: nth_append)
    next
      case False
      with j assms(2) show ?thesis by (simp add: nth_append cloneEntryAt_def)
    qed
  qed
qed

lemma settleTask_step:
  assumes "registryOk m" and "i < length tasks" and "i \<notin> S"
  shows "settleTask (handleAt e (length (agents m)) tasks i) (settledState e m tasks S) =
         settledState e m tasks (insert i S)"
proof (cases "taskOutcome e (tasks ! i)")
  case (Inl err)
  have "map (agentAt e tasks (insert i S)) [0..<length tasks] = map (agentAt e tasks S) [0..<length tasks]"
    using Inl by (intro map_cong) (auto simp: agentAt_def Let_def)
  moreover have "map (cloneEntryAt e (length (agents m)) tasks (insert i S)) [0..<length tasks] =
      map (cloneEntryAt e (length (agents m)) tasks S) [0..<length tasks]"
    using Inl by (intro map_cong) (auto simp: cloneEntryAt_def)
  ultimately show ?thesis
    using Inl by (simp add: settleTask_def handleAt_def settledState_def)
next
  case (Inr r)
  let ?n0 = "length (agents m)"
  let ?A = "agentAt e tasks S" and ?C = "cloneEntryAt e ?n0 tasks S"
  let ?m1 = "settledState e m tasks S"
  have ag: "(agents ?m1)[?n0 + i := pushAssistant (agents ?m1 ! (?n0 + i)) r] =
      agents m @ map (agentAt e tasks (insert i S)) [0..<length tasks]"
  proof -
    have "(agents ?m1)[?n0 + i := pushAssistant (agents ?m1 ! (?n0 + i)) r] =
        agents m @ map (?A(i := pushAssistant (?A i) r)) [0..<length tasks]"
      using assms(2) by (simp add: settledState_def list_update_append nth_append map_upt_update)
    also have "map (?A(i := pushAssistant (?A i) r)) [0..<length tasks] =
        map (agentAt e tasks (insert i S)) [0..<length tasks]"
      using Inr assms(3) by (intro map_cong) (auto simp: agentAt_def Let_def)
    finally show ?thesis .
  qed
  let ?m2 = "?m1\<lparr>agents := agents m @ map (agentAt e tasks (insert i S)) [0..<length tasks]\<rparr>"
  have fi: "findIndex (\<lambda>c. c_agent c = ?n0 + i) (clones ?m2) = Some (length (clones m) + i)"
    using findIndex_spawned[OF assms(1,2), of e S] by (simp add: settledState_def)
  have cl: "(clones ?m2)[length (clones m) + i :=
        (clones ?m2 ! (length (clones m) + i))\<lparr>c_status := ''completed''\<rparr>] =
      clones m @ map (cloneEntryAt e ?n0 tasks (insert i S)) [0..<length tasks]"
  proof -
    have "(clones ?m2)[length (clones m) + i :=
        (clones ?m2 ! (length (clones m) + i))\<lparr>c_status := ''completed''\<rparr>] =
        clones m @ map (?C(i := (?C i)\<lparr>c_status := ''completed''\<rparr>)) [0..<length tasks]"
      using assms(2) by (simp add: settledState_def list_update_append nth_append map_upt_update)
    also have "map (?C(i := (?C i)\<lparr>c_status := ''completed''\<rparr>)) [0..<length tasks] =
        map (cloneEntryAt e ?n0 tasks (insert i S)) [0..<length tasks]"
      using Inr assms(3) by (intro map_cong) (auto simp: cloneEntryAt_def)
    finally show ?thesis .
  qed
  have "settleTask (handleAt e ?n0 tasks i) ?m1 = markCompleted (?n0 + i) ?m2"
    using Inr ag by (simp add: settleTask_def handleAt_def)
  also have "\<dots> = ?m2\<lparr>clones := clones m @ map (cloneEntryAt e ?n0 tasks (insert i S)) [0..<length tasks]\<rparr>"
    using fi cl by (simp add: markCompleted_def)
  also have "\<dots> = settledState e m tasks (insert i S)"
    by (simp add: settledState_def)
  finally show ?thesis .
qed

lemma settleAll_spawnable:
  assumes "registryOk m"
  shows "settleAll (map (handleAt e (length (agents m)) tasks) [0..<length tasks]) order settled
           (settledState e m tasks (set settled)) =
         settledState e m tasks (set settled \<union> (set order \<inter> {..<length tasks}))"
proof (induction order arbitrary: settled)
  case Nil
  then show ?case by simp
next
  case (Cons i order)
  show ?case
  proof (cases "i < length tasks \<and> i \<notin> set settled")
    case True
    then have "settleAll (map (handleAt e (length (agents m)) tasks) [0..<length tasks]) (i # order) settled
           (settledState e m tasks (set settled)) =
        settleAll (map (handleAt e (length (agents m)) tasks) [0..<length tasks]) order (i # settled)
           (settledState e m tasks (set (i # settled)))"
      using settleTask_step[OF assms, of i tasks "set settled" e] by simp
    also have "\<dots> = settledState e m tasks (set (i # settled) \<union> (set order \<inter> {..<length tasks}))"
      by (rule Cons.IH)
    also have "set (i # settled) \<union> (set order \<inter> {..<length tasks}) =
        set settled \<union> (set (i # order) \<inter> {..<length tasks})"
      using True by auto
    finally show ?thesis .
  next
    case False
    then have "settleAll (map (handleAt e (length (agents m)) tasks) [0..<length tasks]) (i # order) settled
           (settledState e m tasks (set settled)) =
        settleAll (map (handleAt e (length (agents m)) tasks) [0..<length tasks]) order settled
           (settledState e m tasks (set settled))"
      by auto
    also have "\<dots> = settledState e m tasks (set settled \<union> (set order \<inter> {..<length tasks}))"
      by (rule Cons.IH)
    also have "set settled \<union> (set order \<inter> {..<length tasks}) =
        set settled \<union> (set (i # order) \<inter> {..<length tasks})"
      using False by auto
    finally show ?thesis .
  qed
qed

lemma promises_spawnable:
  "map2 promiseOf (map k_task tasks) (map (handleAt e n0 tasks) [0..<length tasks]) =
   map (taskPromise e) tasks"
  by (rule nth_equalityI)
     (auto simp: promiseOf_def handleAt_def taskPromise_def split: sum.splits)

lemma executeParallel_spawnable:
  assumes "registryOk m" and "spawnable e tasks"
  shows "executeParallel e tasks order m =
           (promiseAll (map (taskPromise e) tasks) order,
            settledState e m tasks (set order \<inter> {..<length tasks}))"
proof -
  let ?hs = "map (handleAt e (length (agents m)) tasks) [0..<length tasks]"
  have st: "startAll e tasks m = (?hs, settledState e m tasks {})"
    by (rule startAll_spawnable[OF assms(2)])
  have im: "filter (\<lambda>i. isl (?hs ! i)) [0..<length ?hs] = []"
    by (auto simp: filter_empty_conv handleAt_def)
  have "settleAll ?hs order [] (settledState e m tasks (set [])) =
      settledState e m tasks (set [] \<union> (set order \<inter> {..<length tasks}))"
    by (rule settleAll_spawnable[OF assms(1)])
  then have se: "settleAll ?hs order [] (settledState e m tasks {}) =
      settledState e m tasks (set order \<inter> {..<length tasks})"
    by simp
  show ?thesis
    unfolding executeParallel_def Let_def st fst_conv snd_conv im append_Nil
    by (simp only: promises_spawnable se)
qed

lemma collect_fulfilled:
  "list_all fulfilled ps \<Longrightarrow> collect ps = Some (map projr ps)"
proof (induction ps)
  case Nil then show ?case by simp
next
  case (Cons p ps) then show ?case by (cases p) auto
qed

lemma firstRejection_fulfilled:
  "list_all fulfilled ps \<Longrightarrow> firstRejection ps order = None"
proof (induction order)
  case Nil then show ?case by simp
next
  case (Cons i order)
  then show ?case
    by (cases "ps ! i") (auto simp: list_all_length)
qed

lemma firstRejection_rejected:
  "i \<in> set order \<Longrightarrow> i < length ps \<Longrightarrow> \<not> fulfilled (ps ! i) \<Longrightarrow> \<exists>err. firstRejection ps order = Some err"
proof (induction order)
  case Nil then show ?case by simp
next
  case (Cons j order)
  then show ?case
    by (cases "ps ! j") (auto split: sum.splits)
qed

lemma settledState_status:
  "i < length tasks \<Longrightarrow>
   clones (settledState e m tasks S) ! (length (clones m) + i) =
     cloneEntryAt e (length (agents m)) tasks S i"
  by (simp add: settledState_def nth_append)

text \<open>
  The state and the result of \<^verbatim>\<open>executeParallel\<close> once every request has settled, in any
  order, when every clone can be constructed: there is one new registry entry per task,
  in task order; the entry of a task whose request was answered is \<^verbatim>\<open>'completed'\<close> and
  the entry of a task whose request failed is still \<^verbatim>\<open>'running'\<close>; when every request was
  answered, the result pairs each answer with its task, in the order of the task list;
  and when some request failed, \<^verbatim>\<open>executeParallel\<close> throws.
\<close>

lemma executeParallel_settled:
  assumes "registryOk m" and "spawnable e tasks" and "\<forall>i<length tasks. i \<in> set order"
  shows "length (clones (snd (executeParallel e tasks order m))) = length (clones m) + length tasks
    \<and> (\<forall>i<length tasks.
           c_status (clones (snd (executeParallel e tasks order m)) ! (length (clones m) + i)) =
             (if fulfilled (taskOutcome e (tasks ! i)) then ''completed'' else ''running'')
           \<and> c_task (clones (snd (executeParallel e tasks order m)) ! (length (clones m) + i)) =
               t_task (k_task (tasks ! i)))
    \<and> (list_all (\<lambda>k. fulfilled (taskOutcome e k)) tasks \<longrightarrow>
           fst (executeParallel e tasks order m) =
             Some (Inr (map (\<lambda>k. \<lparr>tr_mode = t_mode (k_task k), tr_task = t_task (k_task k),
                                   tr_result = projr (taskOutcome e k)\<rparr>) tasks)))
    \<and> (\<not> list_all (\<lambda>k. fulfilled (taskOutcome e k)) tasks \<longrightarrow>
           (\<exists>err. fst (executeParallel e tasks order m) = Some (Inl err)))"
proof -
  let ?ps = "map (taskPromise e) tasks"
  have S: "set order \<inter> {..<length tasks} = {..<length tasks}" using assms(3) by auto
  have ep: "executeParallel e tasks order m =
      (promiseAll ?ps order, settledState e m tasks {..<length tasks})"
    using executeParallel_spawnable[OF assms(1,2), of order] S by simp
  have c1: "length (clones (snd (executeParallel e tasks order m))) = length (clones m) + length tasks"
    by (simp add: ep settledState_def)
  have c2: "\<forall>i<length tasks.
           c_status (clones (snd (executeParallel e tasks order m)) ! (length (clones m) + i)) =
             (if fulfilled (taskOutcome e (tasks ! i)) then ''completed'' else ''running'')
           \<and> c_task (clones (snd (executeParallel e tasks order m)) ! (length (clones m) + i)) =
               t_task (k_task (tasks ! i))"
    by (simp add: ep settledState_status cloneEntryAt_def)
  have c3: "list_all (\<lambda>k. fulfilled (taskOutcome e k)) tasks \<longrightarrow>
           fst (executeParallel e tasks order m) =
             Some (Inr (map (\<lambda>k. \<lparr>tr_mode = t_mode (k_task k), tr_task = t_task (k_task k),
                                   tr_result = projr (taskOutcome e k)\<rparr>) tasks))"
  proof
    assume ok: "list_all (\<lambda>k. fulfilled (taskOutcome e k)) tasks"
    then have f: "list_all fulfilled ?ps"
      by (auto simp: list_all_iff taskPromise_def split: sum.splits)
    have "map projr ?ps = map (\<lambda>k. \<lparr>tr_mode = t_mode (k_task k), tr_task = t_task (k_task k),
                                   tr_result = projr (taskOutcome e k)\<rparr>) tasks"
      using ok by (auto simp: list_all_iff taskPromise_def split: sum.splits)
    then show "fst (executeParallel e tasks order m) =
             Some (Inr (map (\<lambda>k. \<lparr>tr_mode = t_mode (k_task k), tr_task = t_task (k_task k),
                                   tr_result = projr (taskOutcome e k)\<rparr>) tasks))"
      using assms(3) by (simp add: ep promiseAll_def firstRejection_fulfilled[OF f] collect_fulfilled[OF f])
  qed
  have c4: "\<not> list_all (\<lambda>k. fulfilled (taskOutcome e k)) tasks \<longrightarrow>
           (\<exists>err. fst (executeParallel e tasks order m) = Some (Inl err))"
  proof
    assume "\<not> list_all (\<lambda>k. fulfilled (taskOutcome e k)) tasks"
    then obtain i where i: "i < length tasks" "\<not> fulfilled (taskOutcome e (tasks ! i))"
      by (auto simp: list_all_length)
    then have "\<not> fulfilled (?ps ! i)"
      by (auto simp: taskPromise_def split: sum.splits)
    with firstRejection_rejected[of i order ?ps] i(1) assms(3)
    obtain err where "firstRejection ?ps order = Some err" by auto
    then show "\<exists>err. fst (executeParallel e tasks order m) = Some (Inl err)"
      by (simp add: ep promiseAll_def)
  qed
  show ?thesis using c1 c2 c3 c4 by blast
qed

lemmas ex_agent_defs = newBaseAgent_def initializeProvider_def selectedConfig_def
  primaryConfig_def createProvider_def toLowerCase_def ex_env2_def ex_env_def ex_config_def
  ex_task_def Let_def providerCall_def noOptions_def jsOr_def getSystemPrompt_def newProvider_def
  ex_response_def

lemmas ex_par_defs = executeParallel_def startTask_def spawnClone_def settleTask_def
  markCompleted_def promiseAll_def promiseOf_def pushUser_def pushAssistant_def ex_master_def

text \<open>
  The order of the results on a sample: three callbacks send one and the same request,
  the answers arrive last first, and the results are in the order of the task list.
\<close>

lemma fan_in_order_example:
  "map (r_message \<circ> tr_result)
     (projr (the (fst (executeParallel ex_env2 ex_tasks [2, 0, 1] ex_master)))) = [''a'', ''b'', ''c'']
   \<and> map c_status (clones (snd (executeParallel ex_env2 ex_tasks [2, 0, 1] ex_master))) =
       [''completed'', ''completed'', ''completed'']
   \<and> getClones (snd (executeParallel ex_env2 ex_tasks [2, 0, 1] ex_master)) = []"
  by (simp add: ex_par_defs ex_agent_defs ex_tasks_def ex_same_def getClones_def
      All_less_Suc Ex_less_Suc)

text \<open>
  \<^bold>\<open>C6\<close> (fan-out and fan-in) does not hold of the code. The callback of a task marks
  its clone \<^verbatim>\<open>'completed'\<close> after \<^verbatim>\<open>await clone.sendMessage(message)\<close>, outside any
  \<^verbatim>\<open>finally\<close>: when the request fails, the callback is left before the line under the
  comment ``Mark clone as completed''. So for two tasks of which the second fails,
  whichever request settles first, \<^verbatim>\<open>executeParallel\<close> throws, the clone of the failed
  task stays \<^verbatim>\<open>'running'\<close> after its task has returned, and \<^verbatim>\<open>getClones\<close>, the list of
  the active clones, holds it from then on.
\<close>

theorem failed_clone_stays_running:
  "fst (executeParallel ex_env2 [ex_answered, ex_failed] [1, 0] ex_master) =
     Some (Inl (Error ''API request failed: 500''))
   \<and> map c_status (clones (snd (executeParallel ex_env2 [ex_answered, ex_failed] [1, 0] ex_master))) =
       [''completed'', ''running'']
   \<and> map c_task (getClones (snd (executeParallel ex_env2 [ex_answered, ex_failed] [1, 0] ex_master))) =
       [''Survey datasets'']
   \<and> fst (executeParallel ex_env2 [ex_answered, ex_failed] [0, 1] ex_master) =
       Some (Inl (Error ''API request failed: 500''))
   \<and> map c_status (clones (snd (executeParallel ex_env2 [ex_answered, ex_failed] [0, 1] ex_master))) =
       [''completed'', ''running'']
   \<and> map c_task (getClones (snd (executeParallel ex_env2 [ex_answered, ex_failed] [0, 1] ex_master))) =
       [''Survey datasets'']"
  by (simp add: ex_par_defs ex_agent_defs ex_answered_def ex_failed_def getClones_def)

section \<open>Clone identifiers\<close>

text \<open>
  \<^bold>\<open>C8\<close> (clone identifier uniqueness) does not hold of the code: the identifier is the
  mode and the clock reading in milliseconds, so two clones of one mode spawned within
  one millisecond, as the callbacks of \<^verbatim>\<open>executeParallel\<close> spawn them, are two entries of
  the registry with one identifier.
\<close>

theorem clone_id_collision:
  "map c_id (clones (snd (spawnClone ex_env2 1700000000000 ''researcher'' ''Survey datasets''
      (snd (spawnClone ex_env2 1700000000000 ''researcher'' ''Find papers'' ex_master))))) =
     [''researcher-1700000000000'', ''researcher-1700000000000'']
   \<and> map c_agent (clones (snd (spawnClone ex_env2 1700000000000 ''researcher'' ''Survey datasets''
      (snd (spawnClone ex_env2 1700000000000 ''researcher'' ''Find papers'' ex_master))))) = [0, 1]"
  by (simp add: spawnClone_def ex_master_def ex_agent_defs dec.simps)

section \<open>Paper completeness\<close>

lemma pages_ceiling: "int ((n + 449) div 450) = \<lceil>real n / 450\<rceil>"
proof -
  define q where "q = (n + 449) div 450"
  have a: "n \<le> 450 * q" unfolding q_def by arith
  have b: "450 * q < n + 450" unfolding q_def by arith
  have a': "real n / 450 \<le> real q"
  proof -
    have "real n \<le> real (450 * q)" using a by (rule of_nat_mono)
    then show ?thesis by simp
  qed
  have b': "real q - 1 < real n / 450"
  proof -
    have "real (450 * q) < real (n + 450)" using b by (simp only: of_nat_less_iff)
    then show ?thesis by simp
  qed
  have "\<lceil>real n / 450\<rceil> = int q"
    by (rule ceiling_unique) (use a' b' in simp_all)
  then show ?thesis by (simp add: q_def)
qed

lemma validate_fields:
  "v_estimatedPages (validatePaperCompleteness doc) = (wordCount doc + 449) div 450"
  "v_figureCount (validatePaperCompleteness doc) = countMatches doc (BS # ''begin{figure}'')"
  "v_hasExperimentalSection (validatePaperCompleteness doc) = hasExperimentalSection doc"
  "v_isComplete (validatePaperCompleteness doc) =
     (12 \<le> v_estimatedPages (validatePaperCompleteness doc)
      \<and> 4 \<le> v_figureCount (validatePaperCompleteness doc)
      \<and> v_hasExperimentalSection (validatePaperCompleteness doc))"
  by (simp_all add: validatePaperCompleteness_def Let_def)

lemma needsExpansion_iff:
  "needsExpansion (validatePaperCompleteness doc) \<longleftrightarrow> \<not> v_isComplete (validatePaperCompleteness doc)"
  by (auto simp: needsExpansion_def validate_fields)

lemma pages_threshold: "12 \<le> (n + 449) div 450 \<longleftrightarrow> 4951 \<le> (n::nat)"
  by arith

lemma cloneSendMessage_cases:
  "cloneSendMessage e clone t m =
     (case providerCall e (agents m ! clone) t noOptions of
        Inl err \<Rightarrow> (Inl err, m\<lparr>agents := (agents m)[clone := pushUser (agents m ! clone) t]\<rparr>)
      | Inr r \<Rightarrow>
          (Inr r, m\<lparr>agents := (agents m)[clone := pushAssistant (pushUser (agents m ! clone) t) r]\<rparr>))"
  by (simp add: cloneSendMessage_def sendMessage_halves Let_def split: sum.splits)

lemma validateAndExpand_complete:
  assumes "files m paperPath = Some doc" and "v_isComplete (validatePaperCompleteness doc)"
  shows "validateAndExpand e we clone paperPath m = (Inr (), m)"
  using assms by (simp add: validateAndExpand_def needsExpansion_iff)

lemma validateAndExpand_incomplete:
  assumes "files m paperPath = Some doc" and "\<not> v_isComplete (validatePaperCompleteness doc)"
  shows "validateAndExpand e we clone paperPath m =
     (case providerCall e (agents m ! clone)
             (we_expansionPrompt we (validatePaperCompleteness doc)) noOptions of
        Inl err \<Rightarrow>
          (Inl err,
           m\<lparr>agents := (agents m)[clone :=
                pushUser (agents m ! clone) (we_expansionPrompt we (validatePaperCompleteness doc))]\<rparr>)
      | Inr x \<Rightarrow>
          (Inr (),
           m\<lparr>agents := (agents m)[clone :=
                pushAssistant
                  (pushUser (agents m ! clone) (we_expansionPrompt we (validatePaperCompleteness doc))) x],
             files := (files m)(paperPath \<mapsto> extractLatexFromResponse (r_message x))\<rparr>))"
  using assms
  by (simp add: validateAndExpand_def needsExpansion_iff cloneSendMessage_cases Let_def
      split: sum.splits)

lemma spawnClone_ok:
  assumes "newBaseAgent (config e) md = Inr a"
  shows "spawnClone e now md task m =
     (Inr (length (agents m)),
      m\<lparr>agents := agents m @ [a],
        clones := clones m @
          [\<lparr>c_id = md @ ''-'' @ dec now, c_agent = length (agents m), c_mode = md,
            c_task = task, c_status = ''running''\<rparr>]\<rparr>)"
  using assms by (simp add: spawnClone_def)

lemma spawnClone_fails:
  assumes "newBaseAgent (config e) md = Inl err"
  shows "spawnClone e now md task m = (Inl err, m)"
  using assms by (simp add: spawnClone_def)

lemma register_disk:
  assumes "register pf amb args (st, d) = (entry, st', d')" and "p \<noteq> indexPath st"
  shows "d' p = d p" and "indexPath st' = indexPath st"
  using assms by (auto simp: register_def Let_def saveIndex_def split: option.splits)

lemma saveArtifact_disk:
  assumes "p \<noteq> storagePath pf st (s_name args)" and "p \<noteq> indexPath st"
  shows "snd (fst (snd (saveArtifact pf amb args (st, d)))) p = d p"
proof -
  let ?args = "\<lparr>g_name = s_name args, g_type = s_type args,
                 g_path = pathJoin pf (artifactsPath st) (s_name args),
                 g_description = Some (orDefault (s_description args) []),
                 g_generatedBy = Some (orDefault (s_generatedBy args) ''unknown''),
                 g_metadata = Some (orDefault (s_metadata args) [])\<rparr>"
  let ?d1 = "d(pathJoin pf (artifactsPath st) (s_name args) \<mapsto> s_content args)"
  obtain entry st' d' where r: "register pf amb ?args (st, ?d1) = (entry, st', d')"
    by (metis prod.exhaust)
  from register_disk(1)[OF r assms(2)] assms(1) have "d' p = d p"
    by (simp add: storagePath_def)
  then show ?thesis using r by (simp add: saveArtifact_def Let_def)
qed

lemma saveWritingDocument_paper:
  assumes "paperPathFree pf m wsPath"
  shows "files (fst (saveWritingDocument pf we doc
                  (m\<lparr>files := (files m)(pathJoin pf wsPath ''paper.tex'' \<mapsto> x)\<rparr>)))
           (pathJoin pf wsPath ''paper.tex'') = Some x"
  using assms
  by (auto simp: saveWritingDocument_def paperPathFree_def Let_def saveArtifact_disk
      split: option.splits)

lemma saveWritingDocument_registry [simp]:
  "agents (fst (saveWritingDocument pf we doc m)) = agents m"
  "clones (fst (saveWritingDocument pf we doc m)) = clones m"
  "phase (fst (saveWritingDocument pf we doc m)) = phase m"
  by (auto simp: saveWritingDocument_def Let_def split: option.splits)

lemma executeWritingPhase_drafted:
  assumes spawn: "newBaseAgent (config e) ''writer'' = Inr a"
    and draft: "providerCall e a (paperPrompt we m) noOptions = Inr paperResult"
    and ws: "workspace m = Some wsPath"
    and free: "paperPathFree pf m wsPath"
  shows "\<exists>m5 evs.
           files m5 (pathJoin pf wsPath ''paper.tex'') =
             Some (extractLatexFromResponse (r_message paperResult))
           \<and> agents m5 = agents m @ [pushAssistant (pushUser a (paperPrompt we m)) paperResult]
           \<and> executeWritingPhase e pf we m =
               (case validateAndExpand e we (length (agents m)) (pathJoin pf wsPath ''paper.tex'') m5 of
                  (Inl err, m6) \<Rightarrow> (Inl err, m6, evs)
                | (Inr u, m6) \<Rightarrow>
                    (Inr \<lparr>wr_paper = r_message paperResult, wr_pdfCompiled = we_pdfCompiled we\<rparr>,
                     m6, evs))"
proof -
  let ?p = "pathJoin pf wsPath ''paper.tex''"
  let ?x = "extractLatexFromResponse (r_message paperResult)"
  let ?m3 = "m\<lparr>phase := ''writing'',
                clones := clones m @
                  [\<lparr>c_id = ''writer'' @ ''-'' @ dec (we_now we), c_agent = length (agents m),
                    c_mode = ''writer'', c_task = ''Write paper sections'', c_status = ''running''\<rparr>],
                agents := agents m @ [pushAssistant (pushUser a (paperPrompt we m)) paperResult]\<rparr>"
  let ?doc = "we_formatDocument we (r_message paperResult) (we_timestamp we)"
  let ?saved = "saveWritingDocument pf we ?doc (?m3\<lparr>files := (files ?m3)(?p \<mapsto> ?x)\<rparr>)"
  have free3: "paperPathFree pf ?m3 wsPath" using free by (simp add: paperPathFree_def)
  have f: "files (fst ?saved) ?p = Some ?x"
    using saveWritingDocument_paper[OF free3, of we ?doc ?x] by simp
  have ag: "agents (fst ?saved) = agents m @ [pushAssistant (pushUser a (paperPrompt we m)) paperResult]"
    by simp
  have ex: "executeWritingPhase e pf we m =
      (case validateAndExpand e we (length (agents m)) ?p (fst ?saved) of
         (Inl err, m6) \<Rightarrow> (Inl err, m6, snd ?saved)
       | (Inr u, m6) \<Rightarrow>
           (Inr \<lparr>wr_paper = r_message paperResult, wr_pdfCompiled = we_pdfCompiled we\<rparr>, m6,
            snd ?saved))"
    using draft ws
    by (simp add: executeWritingPhase_def Let_def spawnClone_ok[OF spawn] cloneSendMessage_cases
        paperPrompt_def split: prod.splits sum.splits)
  from f ag ex show ?thesis by blast
qed

text \<open>
  \<^bold>\<open>C4\<close> (paper completeness policy). For every LaTeX document, the validator judges it
  complete if and only if the estimated page count is at least 12, the count of
  \<^verbatim>\<open>\begin{figure}\<close> is at least 4 and an experimental, results or validation section heading
  is found; the estimated page count is the ceiling of the word count over 450; and the
  writing phase expands exactly the papers judged incomplete. When the writer can be
  constructed and answers the first request, the writing phase writes the LaTeX of the
  answer to \<^verbatim>\<open>paper.tex\<close>; if that is judged complete, nothing more is sent; if it is judged
  incomplete, exactly one expansion request is sent, and the LaTeX of its answer replaces
  \<^verbatim>\<open>paper.tex\<close> whatever it is, with no further request: the writer's history ends with
  that one question and its answer. (If the expansion request fails, the phase fails and
  \<^verbatim>\<open>paper.tex\<close> stays.)
\<close>

theorem paper_completeness:
  "(v_isComplete (validatePaperCompleteness doc) \<longleftrightarrow>
      12 \<le> v_estimatedPages (validatePaperCompleteness doc)
      \<and> 4 \<le> v_figureCount (validatePaperCompleteness doc)
      \<and> v_hasExperimentalSection (validatePaperCompleteness doc))
   \<and> int (v_estimatedPages (validatePaperCompleteness doc)) = \<lceil>real (wordCount doc) / 450\<rceil>
   \<and> v_figureCount (validatePaperCompleteness doc) = countMatches doc (BS # ''begin{figure}'')
   \<and> v_hasExperimentalSection (validatePaperCompleteness doc) = hasExperimentalSection doc
   \<and> (needsExpansion (validatePaperCompleteness doc) \<longleftrightarrow>
        \<not> v_isComplete (validatePaperCompleteness doc))
   \<and> (newBaseAgent (config e) ''writer'' = Inr a
        \<and> providerCall e a (paperPrompt we m) noOptions = Inr paperResult
        \<and> workspace m = Some wsPath \<and> paperPathFree pf m wsPath \<longrightarrow>
        (let paperPath = pathJoin pf wsPath ''paper.tex'';
             draft = extractLatexFromResponse (r_message paperResult);
             validation = validatePaperCompleteness draft;
             a1 = pushAssistant (pushUser a (paperPrompt we m)) paperResult;
             r = executeWritingPhase e pf we m;
             m' = fst (snd r)
         in if v_isComplete validation
            then fst r = Inr \<lparr>wr_paper = r_message paperResult, wr_pdfCompiled = we_pdfCompiled we\<rparr>
                 \<and> files m' paperPath = Some draft
                 \<and> agents m' = agents m @ [a1]
            else (case providerCall e a1 (we_expansionPrompt we validation) noOptions of
                    Inr x \<Rightarrow>
                      fst r = Inr \<lparr>wr_paper = r_message paperResult,
                                   wr_pdfCompiled = we_pdfCompiled we\<rparr>
                      \<and> files m' paperPath = Some (extractLatexFromResponse (r_message x))
                      \<and> agents m' =
                          agents m @ [pushAssistant (pushUser a1 (we_expansionPrompt we validation)) x]
                  | Inl err \<Rightarrow>
                      fst r = Inl err
                      \<and> files m' paperPath = Some draft
                      \<and> agents m' = agents m @ [pushUser a1 (we_expansionPrompt we validation)])))"
proof (intro conjI impI)
  show "v_isComplete (validatePaperCompleteness doc) \<longleftrightarrow>
      12 \<le> v_estimatedPages (validatePaperCompleteness doc)
      \<and> 4 \<le> v_figureCount (validatePaperCompleteness doc)
      \<and> v_hasExperimentalSection (validatePaperCompleteness doc)"
    by (rule validate_fields(4))
  show "int (v_estimatedPages (validatePaperCompleteness doc)) = \<lceil>real (wordCount doc) / 450\<rceil>"
    by (simp only: validate_fields(1) pages_ceiling)
  show "v_figureCount (validatePaperCompleteness doc) = countMatches doc (BS # ''begin{figure}'')"
    by (rule validate_fields(2))
  show "v_hasExperimentalSection (validatePaperCompleteness doc) = hasExperimentalSection doc"
    by (rule validate_fields(3))
  show "needsExpansion (validatePaperCompleteness doc) \<longleftrightarrow>
        \<not> v_isComplete (validatePaperCompleteness doc)"
    by (rule needsExpansion_iff)
next
  assume h: "newBaseAgent (config e) ''writer'' = Inr a
        \<and> providerCall e a (paperPrompt we m) noOptions = Inr paperResult
        \<and> workspace m = Some wsPath \<and> paperPathFree pf m wsPath"
  let ?p = "pathJoin pf wsPath ''paper.tex''"
  let ?draft = "extractLatexFromResponse (r_message paperResult)"
  let ?v = "validatePaperCompleteness ?draft"
  let ?a1 = "pushAssistant (pushUser a (paperPrompt we m)) paperResult"
  let ?n = "length (agents m)"
  from h executeWritingPhase_drafted[of e a we m paperResult wsPath pf]
  obtain m5 evs where f5: "files m5 ?p = Some ?draft" and a5: "agents m5 = agents m @ [?a1]"
    and ex: "executeWritingPhase e pf we m =
      (case validateAndExpand e we ?n ?p m5 of
         (Inl err, m6) \<Rightarrow> (Inl err, m6, evs)
       | (Inr u, m6) \<Rightarrow>
           (Inr \<lparr>wr_paper = r_message paperResult, wr_pdfCompiled = we_pdfCompiled we\<rparr>, m6, evs))"
    by blast
  have w: "agents m5 ! ?n = ?a1" by (simp add: a5)
  have upd: "\<And>y. (agents m5)[?n := y] = agents m @ [y]" by (simp add: a5)
  show "let paperPath = ?p; draft = ?draft; validation = validatePaperCompleteness draft;
            a1 = ?a1; r = executeWritingPhase e pf we m; m' = fst (snd r)
        in if v_isComplete validation
            then fst r = Inr \<lparr>wr_paper = r_message paperResult, wr_pdfCompiled = we_pdfCompiled we\<rparr>
                 \<and> files m' paperPath = Some draft
                 \<and> agents m' = agents m @ [a1]
            else (case providerCall e a1 (we_expansionPrompt we validation) noOptions of
                    Inr x \<Rightarrow>
                      fst r = Inr \<lparr>wr_paper = r_message paperResult,
                                   wr_pdfCompiled = we_pdfCompiled we\<rparr>
                      \<and> files m' paperPath = Some (extractLatexFromResponse (r_message x))
                      \<and> agents m' =
                          agents m @ [pushAssistant (pushUser a1 (we_expansionPrompt we validation)) x]
                  | Inl err \<Rightarrow>
                      fst r = Inl err
                      \<and> files m' paperPath = Some draft
                      \<and> agents m' = agents m @ [pushUser a1 (we_expansionPrompt we validation)])"
  proof (cases "v_isComplete ?v")
    case True
    from validateAndExpand_complete[OF f5 True, of e we ?n]
    show ?thesis using True f5 a5 by (simp add: ex Let_def)
  next
    case False
    note ve = validateAndExpand_incomplete[OF f5 False, of e we ?n, unfolded w upd]
    show ?thesis
    proof (cases "providerCall e ?a1 (we_expansionPrompt we ?v) noOptions")
      case (Inl err)
      then show ?thesis using False f5 by (simp add: ex ve Let_def)
    next
      case (Inr x)
      then show ?thesis using False by (simp add: ex ve Let_def)
    qed
  qed
qed

lemma ex_writer_spawn: "newBaseAgent (config ex_env2) ''writer'' = Inr ex_writer"
  by (simp add: ex_writer_def ex_agent_defs clientConfigOf_def)

lemma ex_draft_call:
  "providerCall ex_env2 ex_writer (paperPrompt ex_writingEnv ex_workspace) noOptions = Inr ex_draft"
  by (simp add: ex_writer_def ex_draft_def ex_agent_defs paperPrompt_def ex_writingEnv_def)

lemma ex_expansion_call:
  "providerCall ex_env2
     (pushAssistant (pushUser ex_writer (paperPrompt ex_writingEnv ex_workspace)) ex_draft)
     (we_expansionPrompt ex_writingEnv v) noOptions = Inr ex_expansion"
  by (simp add: ex_writer_def ex_draft_def ex_expansion_def ex_agent_defs paperPrompt_def
      ex_writingEnv_def pushUser_def pushAssistant_def)

lemma ex_free: "paperPathFree ex_platform ex_workspace ''ws''"
  by (simp add: paperPathFree_def ex_workspace_def ex_master_def ex_store_def ex_platform_def
      storagePath_def)

lemma ex_draft_text:
  "extractLatexFromResponse (r_message ex_draft) = basicTemplate ''Write the paper. No figures.''"
  by (simp add: ex_draft_def ex_response_def extractLatexFromResponse_def codeBlockMatch_def
      includesStr_def startsWith_def)

lemma ex_draft_incomplete:
  "\<not> v_isComplete (validatePaperCompleteness (basicTemplate ''Write the paper. No figures.''))"
  by (simp add: validate_fields basicTemplate_def startsWith_def)

theorem paper_completeness_witness:
  "newBaseAgent (config ex_env2) ''writer'' = Inr ex_writer
   \<and> providerCall ex_env2 ex_writer (paperPrompt ex_writingEnv ex_workspace) noOptions = Inr ex_draft
   \<and> workspace ex_workspace = Some ''ws''
   \<and> paperPathFree ex_platform ex_workspace ''ws''
   \<and> \<not> v_isComplete (validatePaperCompleteness (extractLatexFromResponse (r_message ex_draft)))
   \<and> fst (executeWritingPhase ex_env2 ex_platform ex_writingEnv ex_workspace) =
       Inr \<lparr>wr_paper = ''Write the paper. No figures.'', wr_pdfCompiled = False\<rparr>
   \<and> files (fst (snd (executeWritingPhase ex_env2 ex_platform ex_writingEnv ex_workspace)))
         ''ws/paper.tex'' =
       Some (extractLatexFromResponse (r_message ex_expansion))
   \<and> map m_content (conversationHistory
         (last (agents (fst (snd (executeWritingPhase ex_env2 ex_platform ex_writingEnv ex_workspace)))))) =
       [''Write the paper. No figures.'', ''Write the paper. No figures.'', ''Expand the paper.'',
        ''Write the paper. No figures.Write the paper. No figures.Expand the paper.'']"
proof -
  let ?r = "executeWritingPhase ex_env2 ex_platform ex_writingEnv ex_workspace"
  let ?a1 = "pushAssistant (pushUser ex_writer (paperPrompt ex_writingEnv ex_workspace)) ex_draft"
  let ?v = "validatePaperCompleteness (extractLatexFromResponse (r_message ex_draft))"
  have ws: "workspace ex_workspace = Some ''ws''" by (simp add: ex_workspace_def)
  have inc: "\<not> v_isComplete ?v"
    by (simp only: ex_draft_text ex_draft_incomplete not_False_eq_True)
  have hyp: "newBaseAgent (config ex_env2) ''writer'' = Inr ex_writer
        \<and> providerCall ex_env2 ex_writer (paperPrompt ex_writingEnv ex_workspace) noOptions = Inr ex_draft
        \<and> workspace ex_workspace = Some ''ws'' \<and> paperPathFree ex_platform ex_workspace ''ws''"
    using ex_writer_spawn ex_draft_call ws ex_free by blast
  note t = paper_completeness [where e = ex_env2 and a = ex_writer and we = ex_writingEnv
      and m = ex_workspace and paperResult = ex_draft and wsPath = "''ws''" and pf = ex_platform,
      THEN conjunct2, THEN conjunct2, THEN conjunct2, THEN conjunct2, THEN conjunct2, THEN mp, OF hyp]
  from t inc have c:
    "fst ?r = Inr \<lparr>wr_paper = r_message ex_draft, wr_pdfCompiled = we_pdfCompiled ex_writingEnv\<rparr>
     \<and> files (fst (snd ?r)) (pathJoin ex_platform ''ws'' ''paper.tex'') =
         Some (extractLatexFromResponse (r_message ex_expansion))
     \<and> agents (fst (snd ?r)) =
         agents ex_workspace @ [pushAssistant (pushUser ?a1 (we_expansionPrompt ex_writingEnv ?v)) ex_expansion]"
    by (simp add: Let_def ex_expansion_call)
  have r1: "fst ?r = Inr \<lparr>wr_paper = ''Write the paper. No figures.'', wr_pdfCompiled = False\<rparr>"
    using c by (simp add: ex_draft_def ex_writingEnv_def)
  have r2: "files (fst (snd ?r)) ''ws/paper.tex'' = Some (extractLatexFromResponse (r_message ex_expansion))"
    using c by (simp add: ex_platform_def)
  have r3: "map m_content (conversationHistory (last (agents (fst (snd ?r))))) =
       [''Write the paper. No figures.'', ''Write the paper. No figures.'', ''Expand the paper.'',
        ''Write the paper. No figures.Write the paper. No figures.Expand the paper.'']"
    using c
    by (simp add: pushUser_def pushAssistant_def ex_writer_def ex_draft_def ex_expansion_def
        ex_writingEnv_def paperPrompt_def)
  show ?thesis by (intro conjI ex_writer_spawn ex_draft_call ws ex_free inc r1 r2 r3)
qed

subsection \<open>The threshold on a sample paper\<close>

lemma wordsFrom_length_any: "length (wordsFrom tok s) = length (wordsFrom tok' s)"
proof (induction tok s arbitrary: tok' rule: wordsFrom.induct)
  case (1 tok) show ?case by simp
next
  case (2 tok c cs)
  show ?case
  proof (cases "isSpace c")
    case True then show ?thesis by simp
  next
    case False
    from 2(2)[OF False, of "tok' @ [c]"] show ?thesis using False by simp
  qed
qed

lemma wordsFrom_length: "length (wordsFrom tok s) = length (wordsFrom [] s)"
  by (rule wordsFrom_length_any)

lemma wordsFrom_word:
  assumes "\<forall>c \<in> set w. \<not> isSpace c"
  shows "length (wordsFrom tok (w @ s)) = length (wordsFrom [] s)"
  using assms
proof (induction w arbitrary: tok)
  case Nil show ?case by (simp add: wordsFrom_length[of tok s])
next
  case (Cons c w) then show ?case by simp
qed

lemma wordsFrom_space_word:
  assumes "\<forall>c \<in> set w. \<not> isSpace c" and "w \<noteq> []"
  shows "length (wordsFrom tok ('' '' @ w @ s)) = Suc (length (wordsFrom [] s))"
proof -
  from assms obtain c w' where w: "w = c # w'" and c: "\<not> isSpace c" by (cases w) auto
  have "length (wordsFrom tok ('' '' @ w @ s)) = Suc (length (wordsFrom [] (w @ s)))"
    using c by (simp add: w isSpace_def)
  then show ?thesis by (simp add: wordsFrom_word[OF assms(1)])
qed

lemma wordsFrom_replicate:
  assumes "\<forall>c \<in> set w. \<not> isSpace c" and "w \<noteq> []"
  shows "length (wordsFrom [] (concat (replicate n ('' '' @ w)) @ s)) = n + length (wordsFrom [] s)"
proof (induction n)
  case 0 show ?case by simp
next
  case (Suc n)
  have "concat (replicate (Suc n) ('' '' @ w)) @ s = '' '' @ w @ (concat (replicate n ('' '' @ w)) @ s)"
    by simp
  then show ?case using wordsFrom_space_word[OF assms] Suc by simp
qed




lemma wordsFrom_two_blocks:
  assumes "\<forall>c \<in> set v. \<not> isSpace c" and "v \<noteq> []"
    and "\<forall>c \<in> set w. \<not> isSpace c" and "w \<noteq> []"
  shows "length (wordsFrom [] (concat (replicate a ('' '' @ v)) @ concat (replicate b ('' '' @ w))))
           = a + b + 1"
  using wordsFrom_replicate[OF assms(1,2), of a "concat (replicate b ('' '' @ w))"]
    wordsFrom_replicate[OF assms(3,4), of b "[]"]
  by simp

lemma wordCount_ex_paper:
  assumes "figures \<le> 5998"
  shows "wordCount (ex_paper figures) = 6000"
proof -
  have fig: "\<forall>c \<in> set (BS # ''begin{figure}''). \<not> isSpace c" by (simp add: isSpace_def)
  have wd: "\<forall>c \<in> set ''word''. \<not> isSpace c" by (simp add: isSpace_def)
  have s1: "\<forall>c \<in> set (BS # ''section{Experimental''). \<not> isSpace c" by (simp add: isSpace_def)
  have s2: "\<forall>c \<in> set ''Validation}''. \<not> isSpace c" by (simp add: isSpace_def)
  let ?R = "concat (replicate figures ('' '' @ BS # ''begin{figure}''))
     @ concat (replicate (5998 - figures) ('' '' @ ''word''))"
  have r: "length (wordsFrom [] ?R) = figures + (5998 - figures) + 1"
    by (rule wordsFrom_two_blocks[OF fig _ wd]) simp_all
  have e: "ex_paper figures = (BS # ''section{Experimental'') @ ('' '' @ ''Validation}'' @ ?R)"
    by (simp add: ex_paper_def)
  have "length (wordsFrom [] (ex_paper figures)) = length (wordsFrom [] ('' '' @ ''Validation}'' @ ?R))"
    unfolding e by (rule wordsFrom_word[OF s1])
  also have "\<dots> = Suc (length (wordsFrom [] ?R))"
    by (rule wordsFrom_space_word[OF s2]) simp
  also have "\<dots> = 6000"
    unfolding r using assms by simp
  finally show ?thesis by (simp only: wordCount_def splitWhitespace_def)
qed

lemma countMatches_words:
  "countMatches (concat (replicate n '' word'')) (BS # ''begin{figure}'') = 0"
  by (induction n) (simp_all add: startsWith_def)

lemma replicate_5: "replicate 5 x = [x, x, x, x, x]"
  by (simp add: numeral_eq_Suc)

lemma replicate_2: "replicate 2 x = [x, x]"
  by (simp add: numeral_eq_Suc)

lemma figures_5: "countMatches (ex_paper 5) (BS # ''begin{figure}'') = 5"
  by (simp add: ex_paper_def replicate_5 startsWith_def countMatches_words)

lemma figures_2: "countMatches (ex_paper 2) (BS # ''begin{figure}'') = 2"
  by (simp add: ex_paper_def replicate_2 startsWith_def countMatches_words)

lemma existsSuffix_here: "P s \<Longrightarrow> existsSuffix P s"
  by (cases s) simp_all

lemma heading: "hasExperimentalSection (ex_paper figures)"
proof -
  let ?line = "takeWhile (\<lambda>c. \<not> isLineTerminator c) (drop 9 (ex_paper figures))"
  have "keywordThenBrace ?line ''Experiment''"
    by (simp add: keywordThenBrace_def ex_paper_def startsWith_def isLineTerminator_def)
  then have "sectionHeadingAt
      [''Experiment'', ''experiment'', ''Result'', ''result'', ''Validation'', ''validation'']
      (ex_paper figures)"
    unfolding sectionHeadingAt_def by (simp add: ex_paper_def startsWith_def)
  then show ?thesis unfolding hasExperimentalSection_def by (rule existsSuffix_here)
qed

text \<open>
  The threshold on a sample: a paper of 6000 words with a section ``Experimental
  Validation'' is complete with five figure blocks, and with two it is not, and is
  expanded.
\<close>

lemma completeness_threshold:
  "wordCount (ex_paper 5) = 6000
   \<and> v_estimatedPages (validatePaperCompleteness (ex_paper 5)) = 14
   \<and> v_figureCount (validatePaperCompleteness (ex_paper 5)) = 5
   \<and> v_isComplete (validatePaperCompleteness (ex_paper 5))
   \<and> \<not> needsExpansion (validatePaperCompleteness (ex_paper 5))
   \<and> wordCount (ex_paper 2) = 6000
   \<and> v_figureCount (validatePaperCompleteness (ex_paper 2)) = 2
   \<and> \<not> v_isComplete (validatePaperCompleteness (ex_paper 2))
   \<and> needsExpansion (validatePaperCompleteness (ex_paper 2))"
proof -
  have w5: "wordCount (ex_paper 5) = 6000" by (rule wordCount_ex_paper) simp
  have w2: "wordCount (ex_paper 2) = 6000" by (rule wordCount_ex_paper) simp
  have p5: "v_estimatedPages (validatePaperCompleteness (ex_paper 5)) = 14"
    by (simp add: validate_fields(1) w5)
  have p2: "v_estimatedPages (validatePaperCompleteness (ex_paper 2)) = 14"
    by (simp add: validate_fields(1) w2)
  have f5: "v_figureCount (validatePaperCompleteness (ex_paper 5)) = 5"
    by (simp only: validate_fields(2) figures_5)
  have f2: "v_figureCount (validatePaperCompleteness (ex_paper 2)) = 2"
    by (simp only: validate_fields(2) figures_2)
  have h: "\<And>k. v_hasExperimentalSection (validatePaperCompleteness (ex_paper k))"
    by (simp only: validate_fields(3) heading)
  have c5: "v_isComplete (validatePaperCompleteness (ex_paper 5))"
    by (subst validate_fields(4)) (simp add: p5 f5 h)
  have c2: "\<not> v_isComplete (validatePaperCompleteness (ex_paper 2))"
    by (subst validate_fields(4)) (simp add: f2)
  show ?thesis
    by (intro conjI w5 p5 f5 c5 w2 f2 c2) (simp_all only: needsExpansion_iff c5 c2 simp_thms)
qed

section \<open>The retry bound of the planning phase\<close>

lemma attemptsFrom_Suc:
  "attemptsFrom orc ps a (Suc n) m =
     fst (snd (o_planning orc (a + n) ps (attemptsFrom orc ps a n m)))"
  by (induction n arbitrary: a m) simp_all

lemma filter_created [simp]:
  "filter isErrorEvent (map ArtifactCreated cs) = []"
  "filter isPlanningChange (map ArtifactCreated cs) = []"
  by (induction cs) simp_all

lemma attemptLog_kind [simp]:
  "isErrorEvent (attemptLog retries attempt) = False"
  "isPlanningChange (attemptLog retries attempt) = False"
  by (simp_all add: attemptLog_def)

lemma planningLoop_last:
  assumes "executeWithTimeout (fst (o_planning orc retries ps m)) = Inl err"
  shows "planningLoop orc ps retries retries m s =
     (Inl err,
      s\<lparr>isRunning := False, currentPhase := ''planning'',
        masterAgent := Some (fst (snd (o_planning orc retries ps m)))\<rparr>,
      [PhaseChange ''planning'', attemptLog retries retries]
      @ map ArtifactCreated (snd (snd (o_planning orc retries ps m)))
      @ [Log Failure (''Planning failed after '' @ dec retries @ '' retries: '' @ errorMessage err),
         ErrorEvent err])"
  using assms by (subst planningLoop.simps) (simp add: Let_def)

lemma planningLoop_retry:
  assumes "executeWithTimeout (fst (o_planning orc attempt ps m)) = Inl err" and "attempt < retries"
  shows "planningLoop orc ps retries attempt m s =
     (let m' = fst (snd (o_planning orc attempt ps m));
          rest = planningLoop orc ps retries (Suc attempt) m'
                   (s\<lparr>isRunning := True, currentPhase := ''planning'', masterAgent := Some m'\<rparr>)
      in (fst rest, fst (snd rest),
          [PhaseChange ''planning'', attemptLog retries attempt]
          @ map ArtifactCreated (snd (snd (o_planning orc attempt ps m)))
          @ [Log Warning (''Planning attempt failed: '' @ errorMessage err)]
          @ snd (snd rest)))"
  using assms by (subst planningLoop.simps) (simp add: Let_def)

lemma planningLoop_always_fails:
  assumes "alwaysFails orc ps" and "retries = attempt + k"
  shows "\<exists>err. fst (planningLoop orc ps retries attempt m s) = Inl err
    \<and> executeWithTimeout (fst (o_planning orc retries ps (attemptsFrom orc ps attempt k m))) = Inl err
    \<and> masterAgent (fst (snd (planningLoop orc ps retries attempt m s))) =
        Some (attemptsFrom orc ps attempt (Suc k) m)
    \<and> isRunning (fst (snd (planningLoop orc ps retries attempt m s))) = False
    \<and> filter isErrorEvent (snd (snd (planningLoop orc ps retries attempt m s))) = [ErrorEvent err]
    \<and> length (filter isPlanningChange (snd (snd (planningLoop orc ps retries attempt m s)))) = Suc k"
  using assms(2)
proof (induction k arbitrary: attempt m s)
  case 0
  then have eq: "attempt = retries" by simp
  from assms(1) obtain err where err: "executeWithTimeout (fst (o_planning orc retries ps m)) = Inl err"
    by (auto simp: alwaysFails_def isl_def)
  show ?case
    unfolding eq planningLoop_last[OF err]
    by (rule exI[of _ err]) (simp add: err)
next
  case (Suc k)
  then have lt: "attempt < retries" and r: "retries = Suc attempt + k" by simp_all
  from assms(1) obtain e1 where e1: "executeWithTimeout (fst (o_planning orc attempt ps m)) = Inl e1"
    by (auto simp: alwaysFails_def isl_def)
  let ?m' = "fst (snd (o_planning orc attempt ps m))"
  let ?s' = "s\<lparr>isRunning := True, currentPhase := ''planning'', masterAgent := Some ?m'\<rparr>"
  from Suc.IH[OF r, of ?m' ?s'] obtain err where
    ih: "fst (planningLoop orc ps retries (Suc attempt) ?m' ?s') = Inl err"
      "executeWithTimeout (fst (o_planning orc retries ps (attemptsFrom orc ps (Suc attempt) k ?m'))) = Inl err"
      "masterAgent (fst (snd (planningLoop orc ps retries (Suc attempt) ?m' ?s'))) =
         Some (attemptsFrom orc ps (Suc attempt) (Suc k) ?m')"
      "isRunning (fst (snd (planningLoop orc ps retries (Suc attempt) ?m' ?s'))) = False"
      "filter isErrorEvent (snd (snd (planningLoop orc ps retries (Suc attempt) ?m' ?s'))) = [ErrorEvent err]"
      "length (filter isPlanningChange (snd (snd (planningLoop orc ps retries (Suc attempt) ?m' ?s')))) = Suc k"
    by blast
  show ?case
    unfolding planningLoop_retry[OF e1 lt]
    by (rule exI[of _ err]) (use ih in \<open>simp add: Let_def\<close>)
qed

text \<open>
  \<^bold>\<open>C3\<close> (retry bound). On a service with a workspace, let no planning call of the
  orchestrator return. Then \<^verbatim>\<open>executePlanningPhase\<close> makes exactly \<open>retries + 1\<close> calls (with
  2 for \<open>retries\<close> when the argument is left out): the master agent ends in the state the
  attempts 0 to \<open>retries\<close> lead to, one after the other, and the phase change to
  \<^verbatim>\<open>'planning'\<close> was emitted \<open>retries + 1\<close> times. The error of the last attempt is rethrown,
  and exactly one \<^verbatim>\<open>'error'\<close> event is emitted, which carries it.
\<close>

theorem planning_retry_bound:
  assumes "masterAgent s = Some m" and "alwaysFails orc ps"
  shows "\<exists>err. fst (executePlanningPhase orc ps retries s) = Inl err
    \<and> executeWithTimeout
        (fst (o_planning orc (orDefault retries 2) ps
               (attemptsFrom orc ps 0 (orDefault retries 2) m))) = Inl err
    \<and> masterAgent (fst (snd (executePlanningPhase orc ps retries s))) =
        Some (attemptsFrom orc ps 0 (orDefault retries 2 + 1) m)
    \<and> filter isErrorEvent (snd (snd (executePlanningPhase orc ps retries s))) = [ErrorEvent err]
    \<and> length (filter isPlanningChange (snd (snd (executePlanningPhase orc ps retries s)))) =
        orDefault retries 2 + 1
    \<and> isRunning (fst (snd (executePlanningPhase orc ps retries s))) = False"
proof -
  from planningLoop_always_fails[OF assms(2), of "orDefault retries 2" 0 "orDefault retries 2" m s]
  obtain err where
    "fst (planningLoop orc ps (orDefault retries 2) 0 m s) = Inl err"
    "executeWithTimeout (fst (o_planning orc (orDefault retries 2) ps
        (attemptsFrom orc ps 0 (orDefault retries 2) m))) = Inl err"
    "masterAgent (fst (snd (planningLoop orc ps (orDefault retries 2) 0 m s))) =
        Some (attemptsFrom orc ps 0 (Suc (orDefault retries 2)) m)"
    "isRunning (fst (snd (planningLoop orc ps (orDefault retries 2) 0 m s))) = False"
    "filter isErrorEvent (snd (snd (planningLoop orc ps (orDefault retries 2) 0 m s))) = [ErrorEvent err]"
    "length (filter isPlanningChange (snd (snd (planningLoop orc ps (orDefault retries 2) 0 m s)))) =
        Suc (orDefault retries 2)"
    by auto
  then show ?thesis
    using assms(1) by (intro exI[of _ err]) (simp add: executePlanningPhase_def)
qed

lemma ex_always_fails: "alwaysFails ex_orchestrator ps"
  by (simp add: alwaysFails_def ex_orchestrator_def executeWithTimeout_def)

theorem planning_retry_bound_witness:
  "masterAgent ex_service = Some ex_master \<and> alwaysFails ex_orchestrator ''Optimize routing''
   \<and> fst (executePlanningPhase ex_orchestrator ''Optimize routing'' None ex_service) =
       Inl (Error ''API request failed: 500'')
   \<and> map c_id (clones (the (masterAgent
         (fst (snd (executePlanningPhase ex_orchestrator ''Optimize routing'' None ex_service)))))) =
       [''researcher-0'', ''researcher-1'', ''researcher-2'']
   \<and> filter isErrorEvent
         (snd (snd (executePlanningPhase ex_orchestrator ''Optimize routing'' None ex_service))) =
       [ErrorEvent (Error ''API request failed: 500'')]"
proof -
  let ?r = "executePlanningPhase ex_orchestrator ''Optimize routing'' None ex_service"
  have m: "masterAgent ex_service = Some ex_master" by (simp add: ex_service_def)
  from planning_retry_bound[OF m ex_always_fails, of "''Optimize routing''" None]
  obtain err where e:
    "fst ?r = Inl err"
    "executeWithTimeout (fst (o_planning ex_orchestrator (orDefault None 2) ''Optimize routing''
        (attemptsFrom ex_orchestrator ''Optimize routing'' 0 (orDefault None 2) ex_master))) = Inl err"
    "masterAgent (fst (snd ?r)) =
        Some (attemptsFrom ex_orchestrator ''Optimize routing'' 0 (orDefault None 2 + 1) ex_master)"
    "filter isErrorEvent (snd (snd ?r)) = [ErrorEvent err]"
    by blast
  from e(2) have err: "err = Error ''API request failed: 500''"
    by (simp add: orDefault_def ex_orchestrator_def executeWithTimeout_def)
  have three: "orDefault None 2 + 1 = Suc (Suc (Suc 0))" by (simp add: orDefault_def)
  have c: "map c_id (clones (the (masterAgent (fst (snd ?r))))) =
       [''researcher-0'', ''researcher-1'', ''researcher-2'']"
    unfolding e(3) three
    by (simp add: ex_orchestrator_def ex_master_def dec.simps)
  show ?thesis using m ex_always_fails e(1) e(4) c unfolding err by blast
qed

section \<open>The gate of the modeling phase\<close>

text \<open>
  \<^bold>\<open>C5\<close> (modeling phase gating). For a plan that is \<^verbatim>\<open>null\<close>, \<^verbatim>\<open>undefined\<close>, the empty string
  or the string \<^verbatim>\<open>"null"\<close>, \<^verbatim>\<open>executeModelingPhase\<close> throws at once, on the service and on the
  master agent alike: the state is returned as it was, so no clone is spawned, no history
  has grown by a request, no file is written and nothing is registered; no event is
  emitted; and the orchestrator is not called, not even once.
\<close>

theorem modeling_gate:
  assumes "plan \<in> {JNull, JUndefined, JStr [], JStr ''null''}"
  shows "facadeModelingPhase orc plan s =
           (Inl (Error (if masterAgent s = None then ''Workspace not initialized''
                        else ''No plan provided. Please complete planning phase first.'')),
            s, [])
       \<and> executeModelingPhase e me plan m =
           (Inl (Error ''Invalid plan received. Plan is null or empty.''), m, [])"
  using assms
  by (auto simp: facadeModelingPhase_def executeModelingPhase_def split: option.splits)

theorem modeling_gate_witness:
  "JStr ''null'' \<in> {JNull, JUndefined, JStr [], JStr ''null''}
   \<and> facadeModelingPhase ex_orchestrator (JStr ''null'') ex_service =
       (Inl (Error ''No plan provided. Please complete planning phase first.''), ex_service, [])
   \<and> executeModelingPhase ex_env2 ex_modelingEnv (JStr ''null'') ex_master =
       (Inl (Error ''Invalid plan received. Plan is null or empty.''), ex_master, [])
   \<and> clones (fst (snd (executeModelingPhase ex_env2 ex_modelingEnv (JStr ''null'') ex_master))) = []
   \<and> agents (fst (snd (executeModelingPhase ex_env2 ex_modelingEnv (JStr ''null'') ex_master))) = []"
  using modeling_gate [of "JStr ''null''" ex_orchestrator ex_service ex_env2 ex_modelingEnv ex_master]
  by (simp add: ex_service_def ex_master_def)

section \<open>The phase of the service after a call\<close>

text \<open>
  \<^bold>\<open>C10\<close> (the writing phase resets the phase of the service), as amended. On a service
  with a workspace, after every call of \<^verbatim>\<open>executeWritingPhase\<close>, whether the
  orchestrator returns or throws, the phase is \<^verbatim>\<open>'idle'\<close> and the last event emitted is the
  phase change to \<^verbatim>\<open>'idle'\<close>. On a service without a workspace, \<^verbatim>\<open>executeWritingPhase\<close> and
  \<^verbatim>\<open>executeModelingPhase\<close>, whatever the plan, throw before the \<^verbatim>\<open>try\<close>: the service is
  left as it was, its phase included, and nothing is emitted. A call of
  \<^verbatim>\<open>executeModelingPhase\<close> without a plan (a falsy value or the string \<^verbatim>\<open>"null"\<close>) on a
  service with a workspace throws before the \<^verbatim>\<open>try\<close> in the same way. By contrast, a call
  of \<^verbatim>\<open>executeModelingPhase\<close> with a plan (a string that is neither empty nor \<^verbatim>\<open>"null"\<close>),
  in which the orchestrator throws, leaves the phase at \<^verbatim>\<open>'modeling'\<close>.
\<close>

theorem writing_phase_resets:
  "(masterAgent s = Some m \<longrightarrow>
      fst (facadeWritingPhase orc s) = fst (o_writing orc m)
      \<and> currentPhase (fst (snd (facadeWritingPhase orc s))) = ''idle''
      \<and> isRunning (fst (snd (facadeWritingPhase orc s))) = False
      \<and> snd (snd (facadeWritingPhase orc s)) \<noteq> []
      \<and> last (snd (snd (facadeWritingPhase orc s))) = PhaseChange ''idle'')
   \<and> (masterAgent s0 = None \<longrightarrow>
      facadeWritingPhase orc s0 = (Inl (Error ''Workspace not initialized''), s0, [])
      \<and> facadeModelingPhase orc plan s0 = (Inl (Error ''Workspace not initialized''), s0, []))
   \<and> (masterAgent s = Some m \<and> (plan0 = JStr ''null'' \<or> \<not> truthy plan0) \<longrightarrow>
      facadeModelingPhase orc plan0 s =
        (Inl (Error ''No plan provided. Please complete planning phase first.''), s, []))
   \<and> (masterAgent s = Some m \<and> t \<noteq> [] \<and> t \<noteq> ''null'' \<and> fst (o_modeling orc (JStr t) m) = Inl err \<longrightarrow>
      fst (facadeModelingPhase orc (JStr t) s) = Inl err
      \<and> currentPhase (fst (snd (facadeModelingPhase orc (JStr t) s))) = ''modeling''
      \<and> isRunning (fst (snd (facadeModelingPhase orc (JStr t) s))) = False
      \<and> last (snd (snd (facadeModelingPhase orc (JStr t) s))) = ErrorEvent err)"
proof (intro conjI impI)
  assume "masterAgent s0 = None"
  then show "facadeWritingPhase orc s0 = (Inl (Error ''Workspace not initialized''), s0, [])"
    and "facadeModelingPhase orc plan s0 = (Inl (Error ''Workspace not initialized''), s0, [])"
    by (simp_all add: facadeWritingPhase_def facadeModelingPhase_def)
next
  assume "masterAgent s = Some m \<and> (plan0 = JStr ''null'' \<or> \<not> truthy plan0)"
  then show "facadeModelingPhase orc plan0 s =
      (Inl (Error ''No plan provided. Please complete planning phase first.''), s, [])"
    by (auto simp: facadeModelingPhase_def)
qed (auto simp: facadeWritingPhase_def facadeModelingPhase_def Let_def split: sum.splits)

theorem writing_phase_resets_witness:
  "masterAgent ex_service = Some ex_master
   \<and> masterAgent newAgentService = None
   \<and> fst (o_modeling ex_orchestrator (JStr ''Use a queueing model'') ex_master) =
       Inl (Error ''API request failed: 500'')
   \<and> fst (facadeWritingPhase ex_orchestrator ex_service) = Inl (Error ''API request failed: 500'')
   \<and> currentPhase (fst (snd (facadeWritingPhase ex_orchestrator ex_service))) = ''idle''
   \<and> last (snd (snd (facadeWritingPhase ex_orchestrator ex_service))) = PhaseChange ''idle''
   \<and> facadeWritingPhase ex_orchestrator newAgentService =
       (Inl (Error ''Workspace not initialized''), newAgentService, [])
   \<and> facadeModelingPhase ex_orchestrator (JStr ''Use a queueing model'') newAgentService =
       (Inl (Error ''Workspace not initialized''), newAgentService, [])
   \<and> facadeModelingPhase ex_orchestrator JNull ex_service =
       (Inl (Error ''No plan provided. Please complete planning phase first.''), ex_service, [])
   \<and> currentPhase (fst (snd (facadeModelingPhase ex_orchestrator (JStr ''Use a queueing model'')
         ex_service))) = ''modeling''"
  using writing_phase_resets [where s = ex_service and m = ex_master and orc = ex_orchestrator
      and ?s0.0 = newAgentService and plan = "JStr ''Use a queueing model''" and ?plan0.0 = JNull
      and t = "''Use a queueing model''" and err = "Error ''API request failed: 500''"]
  by (simp add: ex_service_def ex_orchestrator_def newAgentService_def)

text \<open>
  The claim as stated fails before the \<^verbatim>\<open>try\<close> blocks: a call of \<^verbatim>\<open>executeWritingPhase\<close>
  on a new service throws with no phase change emitted, and a call of
  \<^verbatim>\<open>executeModelingPhase\<close> without a plan fails and leaves the phase where it was, here at
  \<^verbatim>\<open>'planning'\<close>.
\<close>

theorem writing_phase_resets_counterexample:
  "PhaseChange ''idle'' \<notin> set (snd (snd (facadeWritingPhase ex_orchestrator newAgentService)))
   \<and> isl (fst (facadeWritingPhase ex_orchestrator newAgentService))
   \<and> isl (fst (facadeModelingPhase ex_orchestrator JNull ex_service))
   \<and> currentPhase (fst (snd (facadeModelingPhase ex_orchestrator JNull ex_service))) \<noteq> ''modeling''"
  by (simp add: facadeWritingPhase_def facadeModelingPhase_def newAgentService_def ex_service_def)

end
